(* ===== verification/Prelude.thy ===== *)
theory Prelude
  imports Main "HOL-Library.Sublist"
begin

text \<open>
  Shared ground of the development: the collections of facts the component
  theories extend, and the generic lemmas on lists that more than one
  component needs.  Strings are \<^typ>\<open>string\<close> (lists of characters), so
  Rust's \<^verbatim>\<open>str::starts_with\<close>, \<^verbatim>\<open>str::ends_with\<close> and
  \<^verbatim>\<open>str::contains\<close> are the library's \<^const>\<open>prefix\<close>,
  \<^const>\<open>suffix\<close> and \<^const>\<open>sublist\<close>; the lemmas below are the facts
  about them the library does not state.
\<close>

section \<open>Collections\<close>

named_theorems rust_eval
  \<open>equations that evaluate the model's string and path operations on a concrete input\<close>

named_theorems walker_simps
  \<open>one equation per kind of item for the traversal and its specification\<close>

lemmas [rust_eval] = suffix_to_prefix sublist_code

section \<open>Results\<close>

type_synonym ('e, 'a) result = "'e + 'a"

abbreviation Ok :: "'a \<Rightarrow> ('e, 'a) result" where
  "Ok \<equiv> Inr"

abbreviation Err :: "'e \<Rightarrow> ('e, 'a) result" where
  "Err \<equiv> Inl"

text \<open>\<^verbatim>\<open>Result::ok\<close>: the error is dropped.\<close>

definition ok :: "('e, 'a) result \<Rightarrow> 'a option" where
  "ok r = (case r of Inl e \<Rightarrow> None | Inr v \<Rightarrow> Some v)"

lemma ok_simps [simp]: "ok (Inr v) = Some v" "ok (Inl e) = None"
  by (simp_all add: ok_def)

lemma ok_eq_Some_iff [simp]: "ok r = Some v \<longleftrightarrow> r = Inr v"
  by (cases r) simp_all

lemma ok_eq_None_iff: "ok r = None \<longleftrightarrow> (\<exists>e. r = Inl e)"
  by (cases r) simp_all

section \<open>Prefixes, suffixes and contiguous sublists\<close>

lemma prefix_drop_append: "prefix xs ys \<Longrightarrow> xs @ drop (length xs) ys = ys"
  by (auto simp: prefix_def)

lemma prefix_length_drop: "prefix xs ys \<Longrightarrow> length (drop (length xs) ys) = length ys - length xs"
  by simp

lemma suffix_butlast_len:
  assumes "suffix pat s"
  shows "take (length s - length pat) s @ pat = s"
  using suffix_take [OF assms] by simp

lemma suffix_diff_less:
  assumes "suffix pat s" and "pat \<noteq> []"
  shows "length s - length pat < length s"
proof -
  from assms(1) have "length pat \<le> length s"
    by (rule suffix_length_le)
  moreover from assms(2) have "0 < length pat"
    by simp
  ultimately show ?thesis
    by linarith
qed

lemma concat_replicate_snoc: "concat (replicate n xs) @ xs = concat (replicate (Suc n) xs)"
  by (induction n) simp_all

text \<open>
  A pattern that does not contain the separator \<open>c\<close> cannot straddle it: it
  occurs in \<open>xs @ c # ys\<close> only where it occurs in \<open>xs\<close> or in \<open>ys\<close>.
\<close>

lemma prefix_Cons_notin:
  assumes "c \<notin> set pat"
  shows "prefix pat (c # ys) \<longleftrightarrow> pat = []"
  using assms by (cases pat) auto

lemma sublist_Cons_notin:
  assumes "c \<notin> set pat"
  shows "sublist pat (c # ys) \<longleftrightarrow> sublist pat ys"
  using assms by (auto simp: sublist_Cons_right prefix_Cons_notin)

lemma sublist_sep:
  assumes "c \<notin> set pat"
  shows "sublist pat (xs @ c # ys) \<longleftrightarrow> sublist pat xs \<or> sublist pat ys"
proof
  assume "sublist pat (xs @ c # ys)"
  then consider "sublist pat xs" | "sublist pat (c # ys)"
    | xs1 xs2 where "pat = xs1 @ xs2" "suffix xs1 xs" "prefix xs2 (c # ys)"
    by (auto simp: sublist_append)
  then show "sublist pat xs \<or> sublist pat ys"
  proof cases
    case 1
    then show ?thesis ..
  next
    case 2
    with assms show ?thesis
      by (simp add: sublist_Cons_notin)
  next
    case 3
    from assms 3(1) have "c \<notin> set xs2"
      by simp
    with 3(3) have "xs2 = []"
      by (simp add: prefix_Cons_notin)
    with 3(1,2) show ?thesis
      by auto
  qed
next
  assume "sublist pat xs \<or> sublist pat ys"
  then show "sublist pat (xs @ c # ys)"
    by (auto simp: sublist_append sublist_Cons_right)
qed

lemma sublist_append_notin_left:
  assumes "set pat \<inter> set xs = {}" and "pat \<noteq> []"
  shows "sublist pat (xs @ ys) \<longleftrightarrow> sublist pat ys"
  using assms
proof (induction xs)
  case Nil
  then show ?case by simp
next
  case (Cons x xs)
  from Cons.prems have "x \<notin> set pat"
    by auto
  then have "sublist pat (x # xs @ ys) \<longleftrightarrow> sublist pat (xs @ ys)"
    by (rule sublist_Cons_notin)
  with Cons show ?case
    by auto
qed

lemma sublist_append_notin_right:
  assumes "set pat \<inter> set ys = {}" and "pat \<noteq> []"
  shows "sublist pat (xs @ ys) \<longleftrightarrow> sublist pat xs"
proof -
  have "sublist pat (xs @ ys) \<longleftrightarrow> sublist (rev pat) (rev ys @ rev xs)"
    by (metis rev_append sublist_rev)
  also from assms have "\<dots> \<longleftrightarrow> sublist (rev pat) (rev xs)"
    by (intro sublist_append_notin_left) auto
  finally show ?thesis
    by simp
qed

lemma sublist_between:
  assumes "set pat \<inter> set l = {}" and "set pat \<inter> set r = {}" and "pat \<noteq> []"
  shows "sublist pat (l @ m @ r) \<longleftrightarrow> sublist pat m"
  using assms by (simp add: sublist_append_notin_left sublist_append_notin_right)

section \<open>Accumulating loops\<close>

text \<open>
  A loop that only pushes onto a vector is a \<^const>\<open>fold\<close> whose step
  appends; its result is the start value followed by what a run from the
  empty vector yields.
\<close>

lemma fold_append_acc:
  assumes "\<And>x acc. f x acc = acc @ g x"
  shows "fold f xs acc = acc @ concat (map g xs)"
  by (induction xs arbitrary: acc) (simp_all add: assms)

end
