(* ===== verification/Rust_Str.thy ===== *)
theory Rust_Str
  imports Prelude
begin

text \<open>
  The string operations of Rust's standard library that \<^verbatim>\<open>src/main.rs\<close>
  calls, as functions on \<^typ>\<open>string\<close>: \<^verbatim>\<open>starts_with\<close>,
  \<^verbatim>\<open>contains\<close>, \<^verbatim>\<open>trim_end_matches\<close>, \<^verbatim>\<open>join\<close>, the
  \<^verbatim>\<open>format!("{}::{}", a, b)\<close> the program uses to qualify a name, and the
  splitting of a string at a separator that path parsing rests on.  The
  argument order is Rust's: the receiver first, the pattern second.
\<close>

section \<open>Definitions\<close>

definition starts_with :: "string \<Rightarrow> string \<Rightarrow> bool" where
  "starts_with s pat = prefix pat s"

definition contains :: "string \<Rightarrow> string \<Rightarrow> bool" where
  "contains s pat = sublist pat s"

text \<open>
  \<^verbatim>\<open>trim_end_matches\<close> removes the pattern from the end for as long as the
  string ends with it.  With the empty pattern Rust returns the string as it
  is; the guard \<open>pat \<noteq> []\<close> says so and makes the recursion well-founded.
\<close>

function trim_end_matches :: "string \<Rightarrow> string \<Rightarrow> string" where
  "trim_end_matches s pat =
     (if pat \<noteq> [] \<and> suffix pat s
      then trim_end_matches (take (length s - length pat) s) pat
      else s)"
  by pat_completeness auto
termination
  by (relation "measure (\<lambda>(s, pat). length s)") (auto intro: suffix_diff_less)

declare trim_end_matches.simps [simp del]

text \<open>\<^verbatim>\<open>[S]::join(sep)\<close>: the pieces with the separator between neighbours.\<close>

fun join :: "string list \<Rightarrow> string \<Rightarrow> string" where
  "join [] sep = []"
| "join [x] sep = x"
| "join (x # y # ys) sep = x @ sep @ join (y # ys) sep"

text \<open>\<^verbatim>\<open>format!("{}::{}", a, b)\<close>.\<close>

definition format_qualified :: "string \<Rightarrow> string \<Rightarrow> string" where
  "format_qualified a b = a @ ''::'' @ b"

text \<open>
  The pieces of a string between occurrences of a separator character
  (\<^verbatim>\<open>str::split\<close>): one piece more than there are separators, empty pieces
  included.
\<close>

fun split_on :: "char \<Rightarrow> string \<Rightarrow> string list" where
  "split_on c [] = [[]]"
| "split_on c (x # xs) =
     (if x = c then [] # split_on c xs
      else (case split_on c xs of
              [] \<Rightarrow> [[x]]
            | p # ps \<Rightarrow> (x # p) # ps))"

section \<open>Evaluation\<close>

lemma trim_end_matches_step [rust_eval]:
  "pat \<noteq> [] \<Longrightarrow> suffix pat s \<Longrightarrow>
     trim_end_matches s pat = trim_end_matches (take (length s - length pat) s) pat"
  by (subst trim_end_matches.simps) simp

lemma trim_end_matches_stop [rust_eval]:
  "\<not> suffix pat s \<Longrightarrow> trim_end_matches s pat = s"
  by (subst trim_end_matches.simps) simp

lemma trim_end_matches_empty_pat [simp]: "trim_end_matches s [] = s"
  by (subst trim_end_matches.simps) simp

lemmas [rust_eval] = starts_with_def contains_def format_qualified_def

section \<open>Trimming\<close>

lemma trim_end_matches_append_pat:
  assumes "pat \<noteq> []"
  shows "trim_end_matches (s @ pat) pat = trim_end_matches s pat"
  using assms by (subst trim_end_matches.simps) (simp add: suffix_def)

lemma trim_end_matches_not_suffix:
  assumes "pat \<noteq> []"
  shows "\<not> suffix pat (trim_end_matches s pat)"
  using assms
proof (induction s pat rule: trim_end_matches.induct)
  case (1 s pat)
  then show ?case
    by (cases "suffix pat s") (simp_all add: trim_end_matches_step trim_end_matches_stop)
qed

lemma trim_end_matches_prefix: "prefix (trim_end_matches s pat) s"
proof (induction s pat rule: trim_end_matches.induct)
  case (1 s pat)
  show ?case
  proof (cases "pat \<noteq> [] \<and> suffix pat s")
    case True
    with "1.IH" have "prefix (trim_end_matches (take (length s - length pat) s) pat)
        (take (length s - length pat) s)"
      by simp
    also have "prefix (take (length s - length pat) s) s"
      by (rule take_is_prefix)
    finally show ?thesis
      using True by (simp add: trim_end_matches_step)
  next
    case False
    then show ?thesis
      by (subst trim_end_matches.simps) auto
  qed
qed

text \<open>Trimming is idempotent.\<close>

lemma trim_end_matches_idem:
  "trim_end_matches (trim_end_matches s pat) pat = trim_end_matches s pat"
proof (cases "pat = []")
  case True
  then show ?thesis by simp
next
  case False
  then have "\<not> suffix pat (trim_end_matches s pat)"
    by (rule trim_end_matches_not_suffix)
  then show ?thesis
    by (rule trim_end_matches_stop)
qed

text \<open>
  What is removed is a number of copies of the pattern: the string
  is its trimmed form followed by \<open>n\<close> copies.
\<close>

lemma trim_end_matches_decompose:
  "\<exists>n. s = trim_end_matches s pat @ concat (replicate n pat)"
proof (induction s pat rule: trim_end_matches.induct)
  case (1 s pat)
  show ?case
  proof (cases "pat \<noteq> [] \<and> suffix pat s")
    case True
    let ?t = "take (length s - length pat) s"
    from True "1.IH" obtain n where n: "?t = trim_end_matches ?t pat @ concat (replicate n pat)"
      by blast
    from True have "s = ?t @ pat"
      by (simp add: suffix_butlast_len)
    with n have "s = trim_end_matches ?t pat @ concat (replicate n pat) @ pat"
      by (metis append_assoc)
    also have "concat (replicate n pat) @ pat = concat (replicate (Suc n) pat)"
      by (rule concat_replicate_snoc)
    finally have "s = trim_end_matches s pat @ concat (replicate (Suc n) pat)"
      using True by (simp add: trim_end_matches_step)
    then show ?thesis ..
  next
    case False
    then have "s = trim_end_matches s pat @ concat (replicate 0 pat)"
      by (subst trim_end_matches.simps) auto
    then show ?thesis ..
  qed
qed

section \<open>Joining and splitting\<close>

lemma join_cases [case_names Nil One Many]:
  assumes "ps = [] \<Longrightarrow> P" and "\<And>x. ps = [x] \<Longrightarrow> P" and "\<And>x y ys. ps = x # y # ys \<Longrightarrow> P"
  shows P
  using assms by (cases ps rule: remdups_adj.cases) auto

lemma join_Cons:
  "join (x # xs) sep = (if xs = [] then x else x @ sep @ join xs sep)"
  by (cases xs) simp_all

lemma join_append:
  "xs \<noteq> [] \<Longrightarrow> ys \<noteq> [] \<Longrightarrow> join (xs @ ys) sep = join xs sep @ sep @ join ys sep"
  by (induction xs sep rule: join.induct) (simp_all add: join_Cons)

lemma join_snoc:
  "xs \<noteq> [] \<Longrightarrow> join (xs @ [x]) sep = join xs sep @ sep @ x"
  by (simp add: join_append)

lemma split_on_nonempty [simp]: "split_on c s \<noteq> []"
  by (induction s) (simp_all split: list.splits)

lemma length_split_on: "length (split_on c s) = Suc (count_list s c)"
  by (induction s) (auto split: list.splits)

lemma split_on_no_sep:
  "p \<in> set (split_on c s) \<Longrightarrow> c \<notin> set p"
proof (induction s arbitrary: p)
  case Nil
  then show ?case by simp
next
  case (Cons x s)
  obtain q qs where q: "split_on c s = q # qs"
    by (cases "split_on c s") simp_all
  with Cons show ?case
    by (auto split: if_splits)
qed

text \<open>Joining the pieces with the separator gives the string back.\<close>

lemma join_split_on: "join (split_on c s) [c] = s"
proof (induction s)
  case Nil
  show ?case by simp
next
  case (Cons x s)
  obtain q qs where q: "split_on c s = q # qs"
    by (cases "split_on c s") simp_all
  with Cons show ?case
    by (simp add: join_Cons split: if_splits)
qed

text \<open>Splitting what was joined gives the pieces back, if no piece holds the separator.\<close>

lemma split_on_append_sep:
  assumes "c \<notin> set p"
  shows "split_on c (p @ c # s) = p # split_on c s"
  using assms by (induction p) auto

lemma split_on_no_sep_id:
  assumes "c \<notin> set p"
  shows "split_on c p = [p]"
  using assms by (induction p) auto

lemma split_on_join:
  assumes "\<forall>p \<in> set ps. c \<notin> set p" and "ps \<noteq> []"
  shows "split_on c (join ps [c]) = ps"
  using assms
proof (induction ps "[c]" rule: join.induct)
  case 1
  then show ?case by simp
next
  case (2 x)
  then show ?case by (simp add: split_on_no_sep_id)
next
  case (3 x y ys)
  then show ?case by (simp add: split_on_append_sep)
qed

text \<open>Splitting distributes over a separator; the last piece is what follows the last separator.\<close>

lemma split_on_append:
  "split_on c (xs @ c # ys) = split_on c xs @ split_on c ys"
proof (induction xs)
  case Nil
  show ?case by simp
next
  case (Cons x xs)
  obtain q qs where q: "split_on c xs = q # qs"
    by (cases "split_on c xs") simp_all
  with Cons show ?case
    by simp
qed

lemma split_on_snoc_sep: "split_on c (xs @ [c]) = split_on c xs @ [[]]"
  using split_on_append [of c xs "[]"] by simp

lemma split_on_single_iff: "length (split_on c s) = 1 \<longleftrightarrow> c \<notin> set s"
  by (simp add: length_split_on count_list_0_iff)

lemma split_on_last:
  assumes "c \<in> set s"
  shows "s = take (length s - Suc (length (last (split_on c s)))) s @ c # last (split_on c s)"
proof -
  let ?ps = "split_on c s"
  from assms have "butlast ?ps \<noteq> []"
    using split_on_single_iff [of c s] by (cases ?ps rule: rev_cases) auto
  then have s: "s = join (butlast ?ps) [c] @ c # last ?ps"
    using join_snoc [of "butlast ?ps" "last ?ps" "[c]"] by (simp add: join_split_on)
  then have "take (length s - Suc (length (last ?ps))) s = join (butlast ?ps) [c]"
    by (metis append_eq_conv_conj diff_add_inverse2 length_Cons length_append)
  with s show ?thesis
    by simp
qed

end
