(* ===== verification/Utf8.thy ===== *)
theory Utf8
  imports Rust_Str
begin

text \<open>
  Validity of UTF-8 and the lossy conversion, as \<^verbatim>\<open>src/main.rs\<close> meets
  them: the name of a directory entry is a sequence of bytes that need
  not be valid UTF-8, \<^verbatim>\<open>OsStr::to_str\<close> returns it only if it is valid,
  and \<^verbatim>\<open>to_string_lossy\<close> replaces what is not valid by the replacement
  character \<^verbatim>\<open>U+FFFD\<close>.  A string is a list of bytes.  Both functions
  rest on the division of the bytes into chunks that the standard library
  computes (\<^verbatim>\<open>Utf8Chunks\<close>): a chunk is one encoded character, or a
  sequence of bytes that begins like one and cannot be completed, which
  the lossy conversion replaces by one replacement character.
\<close>

section \<open>Classes of bytes\<close>

definition is_ascii :: "char \<Rightarrow> bool" where
  "is_ascii c \<longleftrightarrow> (of_char c :: nat) < 0x80"

definition is_cont :: "char \<Rightarrow> bool" where
  "is_cont c \<longleftrightarrow> 0x80 \<le> (of_char c :: nat) \<and> (of_char c :: nat) < 0xC0"

text \<open>
  The number of bytes of the character that a byte begins
  (\<^verbatim>\<open>utf8_char_width\<close>); none for a continuation byte and for the bytes
  that begin no character.
\<close>

definition utf8_char_width :: "char \<Rightarrow> nat" where
  "utf8_char_width c =
     (let b = of_char c :: nat
      in if b < 0x80 then 1
         else if 0xC2 \<le> b \<and> b \<le> 0xDF then 2
         else if 0xE0 \<le> b \<and> b \<le> 0xEF then 3
         else if 0xF0 \<le> b \<and> b \<le> 0xF4 then 4
         else 0)"

text \<open>
  The second byte of a character of three and of four bytes is confined
  further by the first, which excludes overlong encodings, surrogates and
  code points beyond \<^verbatim>\<open>U+10FFFF\<close>.
\<close>

definition second_of_three :: "char \<Rightarrow> char \<Rightarrow> bool" where
  "second_of_three b0 b1 =
     (let x = of_char b0 :: nat; y = of_char b1 :: nat
      in (x = 0xE0 \<and> 0xA0 \<le> y \<and> y \<le> 0xBF) \<or>
         (0xE1 \<le> x \<and> x \<le> 0xEC \<and> 0x80 \<le> y \<and> y \<le> 0xBF) \<or>
         (x = 0xED \<and> 0x80 \<le> y \<and> y \<le> 0x9F) \<or>
         (0xEE \<le> x \<and> x \<le> 0xEF \<and> 0x80 \<le> y \<and> y \<le> 0xBF))"

definition second_of_four :: "char \<Rightarrow> char \<Rightarrow> bool" where
  "second_of_four b0 b1 =
     (let x = of_char b0 :: nat; y = of_char b1 :: nat
      in (x = 0xF0 \<and> 0x90 \<le> y \<and> y \<le> 0xBF) \<or>
         (0xF1 \<le> x \<and> x \<le> 0xF3 \<and> 0x80 \<le> y \<and> y \<le> 0xBF) \<or>
         (x = 0xF4 \<and> 0x80 \<le> y \<and> y \<le> 0x8F))"

section \<open>Chunks\<close>

text \<open>
  What stands at the head of a sequence of bytes: whether it is a
  character, and how many bytes belong to it or, if it is none, are to be
  replaced together.  A byte that is missing at the end counts as one that
  does not fit.
\<close>

fun tail_of_two :: "string \<Rightarrow> bool \<times> nat" where
  "tail_of_two (b1 # rest) = (if is_cont b1 then (True, 2) else (False, 1))"
| "tail_of_two [] = (False, 1)"

fun tail_of_three :: "char \<Rightarrow> string \<Rightarrow> bool \<times> nat" where
  "tail_of_three b0 (b1 # b2 # rest) =
     (if second_of_three b0 b1 then (if is_cont b2 then (True, 3) else (False, 2))
      else (False, 1))"
| "tail_of_three b0 [b1] = (if second_of_three b0 b1 then (False, 2) else (False, 1))"
| "tail_of_three b0 [] = (False, 1)"

fun tail_of_four :: "char \<Rightarrow> string \<Rightarrow> bool \<times> nat" where
  "tail_of_four b0 (b1 # b2 # b3 # rest) =
     (if second_of_four b0 b1
      then (if is_cont b2 then (if is_cont b3 then (True, 4) else (False, 3)) else (False, 2))
      else (False, 1))"
| "tail_of_four b0 [b1, b2] =
     (if second_of_four b0 b1 then (if is_cont b2 then (False, 3) else (False, 2))
      else (False, 1))"
| "tail_of_four b0 [b1] = (if second_of_four b0 b1 then (False, 2) else (False, 1))"
| "tail_of_four b0 [] = (False, 1)"

fun next_chunk :: "string \<Rightarrow> bool \<times> nat" where
  "next_chunk [] = (False, 0)"
| "next_chunk (b0 # rest) =
     (if utf8_char_width b0 = 1 then (True, 1)
      else if utf8_char_width b0 = 2 then tail_of_two rest
      else if utf8_char_width b0 = 3 then tail_of_three b0 rest
      else if utf8_char_width b0 = 4 then tail_of_four b0 rest
      else (False, 1))"

lemma tail_of_two_bounds: "tail_of_two rest = (good, n) \<Longrightarrow> 0 < n \<and> n \<le> Suc (length rest)"
  by (cases rest) (auto split: if_splits)

lemma tail_of_three_bounds: "tail_of_three b0 rest = (good, n) \<Longrightarrow> 0 < n \<and> n \<le> Suc (length rest)"
  by (cases "(b0, rest)" rule: tail_of_three.cases) (auto split: if_splits)

lemma tail_of_four_bounds: "tail_of_four b0 rest = (good, n) \<Longrightarrow> 0 < n \<and> n \<le> Suc (length rest)"
  by (cases "(b0, rest)" rule: tail_of_four.cases) (auto split: if_splits)

lemma next_chunk_bounds:
  assumes "next_chunk (b # bs) = (good, n)"
  shows "0 < n" and "n \<le> Suc (length bs)"
  using assms
  by (auto simp: next_chunk.simps(2) split: if_splits
      dest: tail_of_two_bounds tail_of_three_bounds tail_of_four_bounds)

declare next_chunk.simps(2) [simp del]

function utf8_chunks :: "string \<Rightarrow> (bool \<times> string) list" where
  "utf8_chunks [] = []"
| "utf8_chunks (b # bs) =
     (case next_chunk (b # bs) of
        (good, n) \<Rightarrow> (good, take n (b # bs)) # utf8_chunks (drop n (b # bs)))"
  by pat_completeness auto
termination
  by (relation "measure length") (auto dest: next_chunk_bounds(1) [OF sym])

declare utf8_chunks.simps(2) [simp del]

section \<open>Validity and conversion\<close>

definition valid_utf8 :: "string \<Rightarrow> bool" where
  "valid_utf8 s = list_all fst (utf8_chunks s)"

text \<open>\<^verbatim>\<open>OsStr::to_str\<close>: the string, if it is valid.\<close>

definition to_str :: "string \<Rightarrow> string option" where
  "to_str s = (if valid_utf8 s then Some s else None)"

text \<open>The replacement character \<^verbatim>\<open>U+FFFD\<close>, encoded.\<close>

definition replacement :: string where
  "replacement = [CHR 0xEF, CHR 0xBF, CHR 0xBD]"

definition to_string_lossy :: "string \<Rightarrow> string" where
  "to_string_lossy s =
     concat (map (\<lambda>(good, bytes). if good then bytes else replacement) (utf8_chunks s))"

section \<open>Encoded characters\<close>

text \<open>The sequences of bytes that encode one character.\<close>

fun scalar_bytes :: "string \<Rightarrow> bool" where
  "scalar_bytes [b0] = (utf8_char_width b0 = 1)"
| "scalar_bytes [b0, b1] = (utf8_char_width b0 = 2 \<and> is_cont b1)"
| "scalar_bytes [b0, b1, b2] =
     (utf8_char_width b0 = 3 \<and> second_of_three b0 b1 \<and> is_cont b2)"
| "scalar_bytes [b0, b1, b2, b3] =
     (utf8_char_width b0 = 4 \<and> second_of_four b0 b1 \<and> is_cont b2 \<and> is_cont b3)"
| "scalar_bytes bs = False"

lemma next_chunk_scalar:
  assumes "scalar_bytes c"
  shows "next_chunk (c @ r) = (True, length c)"
  using assms by (cases c rule: scalar_bytes.cases) (simp_all add: next_chunk.simps(2))

lemma tail_of_two_True:
  "tail_of_two rest = (True, n) \<Longrightarrow> n = 2 \<and> (\<exists>b1 r. rest = b1 # r \<and> is_cont b1)"
  by (cases rest) (auto split: if_splits)

lemma tail_of_three_True:
  "tail_of_three b0 rest = (True, n) \<Longrightarrow>
     n = 3 \<and> (\<exists>b1 b2 r. rest = b1 # b2 # r \<and> second_of_three b0 b1 \<and> is_cont b2)"
  by (cases "(b0, rest)" rule: tail_of_three.cases) (auto split: if_splits)

lemma tail_of_four_True:
  "tail_of_four b0 rest = (True, n) \<Longrightarrow>
     n = 4 \<and> (\<exists>b1 b2 b3 r. rest = b1 # b2 # b3 # r \<and> second_of_four b0 b1 \<and>
        is_cont b2 \<and> is_cont b3)"
  by (cases "(b0, rest)" rule: tail_of_four.cases) (auto split: if_splits)

lemma scalar_next_chunk:
  assumes "next_chunk s = (True, n)"
  shows "scalar_bytes (take n s)" and "0 < n" and "n \<le> length s"
proof -
  from assms obtain b0 rest where s: "s = b0 # rest"
    by (cases s) auto
  with assms show "0 < n" and "n \<le> length s"
    by (auto dest: next_chunk_bounds)
  from assms s
  have "utf8_char_width b0 = 1 \<and> n = 1 \<or>
      utf8_char_width b0 = 2 \<and> tail_of_two rest = (True, n) \<or>
      utf8_char_width b0 = 3 \<and> tail_of_three b0 rest = (True, n) \<or>
      utf8_char_width b0 = 4 \<and> tail_of_four b0 rest = (True, n)"
    by (auto simp: next_chunk.simps(2) split: if_splits)
  with s show "scalar_bytes (take n s)"
    by (elim disjE conjE)
      (auto dest!: tail_of_two_True tail_of_three_True tail_of_four_True)
qed

text \<open>A character at the head is a chunk of its own, whatever follows.\<close>

lemma utf8_chunks_step:
  assumes "s \<noteq> []" and "next_chunk s = (good, n)"
  shows "utf8_chunks s = (good, take n s) # utf8_chunks (drop n s)"
  using assms by (cases s) (simp_all add: utf8_chunks.simps(2))

lemma scalar_bytes_nonempty: "scalar_bytes c \<Longrightarrow> c \<noteq> []"
  by (cases c) auto

lemma utf8_chunks_scalar:
  assumes "scalar_bytes c"
  shows "utf8_chunks (c @ r) = (True, c) # utf8_chunks r"
  using utf8_chunks_step [OF _ next_chunk_scalar [OF assms, of r]] scalar_bytes_nonempty [OF assms]
  by simp

lemma concat_utf8_chunks: "concat (map snd (utf8_chunks s)) = s"
proof (induction s rule: length_induct)
  case (1 s)
  show ?case
  proof (cases "s = []")
    case True
    then show ?thesis by simp
  next
    case False
    obtain good n where c: "next_chunk s = (good, n)"
      by fastforce
    with False have "0 < n"
      by (cases s) (auto dest: next_chunk_bounds)
    with False "1.IH" have "concat (map snd (utf8_chunks (drop n s))) = drop n s"
      by simp
    then show ?thesis
      by (simp add: utf8_chunks_step [OF False c])
  qed
qed

section \<open>Validity\<close>

lemma valid_utf8_Nil [simp]: "valid_utf8 []"
  by (simp add: valid_utf8_def)

lemma valid_utf8_scalar:
  "scalar_bytes c \<Longrightarrow> valid_utf8 (c @ r) \<longleftrightarrow> valid_utf8 r"
  by (simp add: valid_utf8_def utf8_chunks_scalar)

lemma valid_utf8_step:
  assumes "s \<noteq> []" and "next_chunk s = (good, n)"
  shows "valid_utf8 s \<longleftrightarrow> good \<and> valid_utf8 (drop n s)"
  by (simp add: valid_utf8_def utf8_chunks_step [OF assms])

text \<open>The chunks of a valid string followed by another string.\<close>

lemma utf8_chunks_append:
  assumes "valid_utf8 a"
  shows "utf8_chunks (a @ r) = utf8_chunks a @ utf8_chunks r"
  using assms
proof (induction a rule: length_induct)
  case (1 a)
  show ?case
  proof (cases "a = []")
    case True
    then show ?thesis by simp
  next
    case False
    obtain good n where c: "next_chunk a = (good, n)"
      by fastforce
    with False "1.prems" have good: "good" and rest: "valid_utf8 (drop n a)"
      by (simp_all add: valid_utf8_step)
    from c good have sc: "scalar_bytes (take n a)" and n: "0 < n" "n \<le> length a"
      by (auto dest: scalar_next_chunk)
    from False n have "length (drop n a) < length a"
      by simp
    with "1.IH" rest have "utf8_chunks (drop n a @ r) = utf8_chunks (drop n a) @ utf8_chunks r"
      by blast
    moreover have "utf8_chunks (take n a @ drop n a @ r) =
        (True, take n a) # utf8_chunks (drop n a @ r)"
      using sc by (rule utf8_chunks_scalar)
    moreover have "utf8_chunks (take n a @ drop n a) = (True, take n a) # utf8_chunks (drop n a)"
      using sc by (rule utf8_chunks_scalar)
    ultimately show ?thesis
      by (metis append_Cons append_assoc append_take_drop_id)
  qed
qed

lemma valid_utf8_append: "valid_utf8 a \<Longrightarrow> valid_utf8 b \<Longrightarrow> valid_utf8 (a @ b)"
  by (simp add: valid_utf8_def utf8_chunks_append)

lemma scalar_bytes_ascii: "is_ascii c \<Longrightarrow> scalar_bytes [c]"
  by (simp add: is_ascii_def utf8_char_width_def)

lemma valid_utf8_Cons_ascii: "is_ascii c \<Longrightarrow> valid_utf8 (c # s) \<longleftrightarrow> valid_utf8 s"
  using valid_utf8_scalar [OF scalar_bytes_ascii, of c s] by simp

lemma valid_utf8_ascii: "list_all is_ascii s \<Longrightarrow> valid_utf8 s"
  by (induction s) (simp_all add: valid_utf8_Cons_ascii)

section \<open>Conversion\<close>

lemma to_str_Some_iff: "to_str s = Some t \<longleftrightarrow> valid_utf8 s \<and> t = s"
  by (auto simp: to_str_def)

lemma to_str_valid: "valid_utf8 s \<Longrightarrow> to_str s = Some s"
  by (simp add: to_str_def)

lemma map_good_chunks:
  "list_all fst cs \<Longrightarrow>
     map (\<lambda>(good, bytes). if good then bytes else r) cs = map snd cs"
  by (induction cs) auto

lemma to_string_lossy_valid:
  assumes "valid_utf8 s"
  shows "to_string_lossy s = s"
  using assms concat_utf8_chunks [of s]
  by (simp add: to_string_lossy_def valid_utf8_def map_good_chunks)

lemma to_string_lossy_append:
  assumes "valid_utf8 a"
  shows "to_string_lossy (a @ r) = a @ to_string_lossy r"
  using to_string_lossy_valid [OF assms]
  by (simp add: to_string_lossy_def utf8_chunks_append [OF assms])

lemma scalar_bytes_replacement: "scalar_bytes replacement"
  by (simp add: replacement_def utf8_char_width_def second_of_three_def is_cont_def)

lemma to_string_lossy_step:
  assumes "s \<noteq> []" and "next_chunk s = (good, n)"
  shows "to_string_lossy s =
         (if good then take n s else replacement) @ to_string_lossy (drop n s)"
  by (simp add: to_string_lossy_def utf8_chunks_step [OF assms])

text \<open>What the lossy conversion returns is valid.\<close>

lemma valid_to_string_lossy: "valid_utf8 (to_string_lossy s)"
proof (induction s rule: length_induct)
  case (1 s)
  show ?case
  proof (cases "s = []")
    case True
    then show ?thesis by (simp add: to_string_lossy_def)
  next
    case False
    obtain good n where c: "next_chunk s = (good, n)"
      by fastforce
    with False have "0 < n"
      by (cases s) (auto dest: next_chunk_bounds)
    with False "1.IH" have "valid_utf8 (to_string_lossy (drop n s))"
      by simp
    moreover from c have "scalar_bytes (if good then take n s else replacement)"
      by (auto simp: scalar_bytes_replacement dest: scalar_next_chunk)
    ultimately show ?thesis
      by (simp add: to_string_lossy_step [OF False c] valid_utf8_scalar)
  qed
qed

text \<open>
  C38.  The lossy conversion returns valid UTF-8, and it returns its
  argument exactly when the argument is valid: it maps the sequences of
  bytes onto the strings and leaves the strings as they are.
\<close>

theorem to_string_lossy_retract:
  "valid_utf8 (to_string_lossy s) \<and> (to_string_lossy s = s \<longleftrightarrow> valid_utf8 s)"
proof -
  have "valid_utf8 s" if "to_string_lossy s = s"
    using valid_to_string_lossy [of s] that by simp
  then show ?thesis
    by (auto simp: valid_to_string_lossy to_string_lossy_valid)
qed

section \<open>ASCII separators\<close>

text \<open>
  Every byte of a character of more than one byte lies beyond ASCII, so
  an ASCII byte is a character wherever it stands, and a valid string
  falls into valid strings where it is cut at one.
\<close>

lemma utf8_char_width_ascii: "is_ascii b \<Longrightarrow> utf8_char_width b = 1"
  by (simp add: utf8_char_width_def is_ascii_def)

lemma not_ascii_cont: "is_cont b \<Longrightarrow> \<not> is_ascii b"
  by (simp add: is_cont_def is_ascii_def)

lemma not_ascii_second:
  "second_of_three b0 b1 \<Longrightarrow> \<not> is_ascii b1" "second_of_four b0 b1 \<Longrightarrow> \<not> is_ascii b1"
  by (auto simp: second_of_three_def second_of_four_def is_ascii_def Let_def)

lemma scalar_bytes_ascii_mem:
  assumes "scalar_bytes c" and "x \<in> set c" and "is_ascii x"
  shows "c = [x]"
  using assms
  by (cases c rule: scalar_bytes.cases)
    (auto dest: utf8_char_width_ascii not_ascii_cont not_ascii_second)

lemma valid_utf8_sepD:
  assumes "is_ascii c" and "valid_utf8 (a @ c # b)"
  shows "valid_utf8 a \<and> valid_utf8 b"
  using assms(2)
proof (induction a rule: length_induct)
  case (1 a)
  show ?case
  proof (cases "a = []")
    case True
    with "1.prems" assms(1) show ?thesis
      by (simp add: valid_utf8_Cons_ascii)
  next
    case False
    let ?s = "a @ c # b"
    obtain good n where ch: "next_chunk ?s = (good, n)"
      by fastforce
    with "1.prems" have good: "good" and rest: "valid_utf8 (drop n ?s)"
      by (simp_all add: valid_utf8_step)
    from ch good have sc: "scalar_bytes (take n ?s)" and n: "0 < n"
      by (auto dest: scalar_next_chunk)
    have le: "n \<le> length a"
    proof (rule ccontr)
      assume "\<not> n \<le> length a"
      then have "n = length a + Suc (n - Suc (length a))"
        by simp
      then have tk: "take n ?s = a @ c # take (n - Suc (length a)) b"
        by (metis append_eq_conv_conj take_Suc_Cons take_add)
      then have "c \<in> set (take n ?s)"
        by simp
      from sc this assms(1) have "take n ?s = [c]"
        by (rule scalar_bytes_ascii_mem)
      with tk have "a = []"
        by (simp add: append_eq_Cons_conv)
      with False show False ..
    qed
    with sc rest have sa: "scalar_bytes (take n a)" and "valid_utf8 (drop n a @ c # b)"
      by simp_all
    moreover from False n have "length (drop n a) < length a"
      by simp
    ultimately have "valid_utf8 (drop n a) \<and> valid_utf8 b"
      using "1.IH" by blast
    moreover from sa have "valid_utf8 (take n a @ drop n a) \<longleftrightarrow> valid_utf8 (drop n a)"
      by (rule valid_utf8_scalar)
    ultimately show ?thesis
      by simp
  qed
qed

lemma valid_utf8_sep:
  assumes "is_ascii c"
  shows "valid_utf8 (a @ c # b) \<longleftrightarrow> valid_utf8 a \<and> valid_utf8 b"
proof
  assume "valid_utf8 (a @ c # b)"
  with assms show "valid_utf8 a \<and> valid_utf8 b"
    by (rule valid_utf8_sepD)
next
  assume "valid_utf8 a \<and> valid_utf8 b"
  with assms show "valid_utf8 (a @ c # b)"
    by (simp add: valid_utf8_append valid_utf8_Cons_ascii)
qed

text \<open>The pieces of a valid string between ASCII separators are valid.\<close>

lemma valid_utf8_split_on:
  assumes "is_ascii c" and "valid_utf8 s"
  shows "list_all valid_utf8 (split_on c s)"
  using assms(2)
proof (induction s rule: length_induct)
  case (1 s)
  show ?case
  proof (cases "c \<in> set s")
    case False
    with "1.prems" show ?thesis
      by (simp add: split_on_no_sep_id)
  next
    case True
    then obtain a b where s: "s = a @ c # b" and a: "c \<notin> set a"
      by (auto dest: split_list_first)
    with "1.prems" assms(1) have "valid_utf8 a" and "valid_utf8 b"
      by (simp_all add: valid_utf8_sep)
    moreover from s have "length b < length s"
      by simp
    ultimately show ?thesis
      using "1.IH" s a by (simp add: split_on_append_sep)
  qed
qed

lemma valid_utf8_join:
  assumes "list_all valid_utf8 ps" and "valid_utf8 sep"
  shows "valid_utf8 (join ps sep)"
  using assms by (induction ps sep rule: join.induct) (simp_all add: valid_utf8_append)

section \<open>Evaluation\<close>

text \<open>
  ASCII strings are evaluated by their validity; other strings chunk by
  chunk, with the facts of \<open>utf8_eval\<close>.
\<close>

section \<open>Induction over the characters of a valid string\<close>

text \<open>
  A valid string that is not empty begins with an encoded character and
  goes on with a valid string, which gives an induction principle.  What
  is valid stays valid when ASCII is cut off at its end.
\<close>

lemma valid_utf8_scalarE:
  assumes "valid_utf8 s" and "s \<noteq> []"
  obtains c r where "s = c @ r" and "scalar_bytes c" and "valid_utf8 r"
proof -
  obtain good n where n: "next_chunk s = (good, n)"
    by (cases "next_chunk s")
  with assms valid_utf8_step [OF assms(2) n] have "next_chunk s = (True, n)" "valid_utf8 (drop n s)"
    by simp_all
  with scalar_next_chunk(1) [of s n] that [of "take n s" "drop n s"] show thesis
    by simp
qed

lemma valid_utf8_induct [consumes 1, case_names Nil scalar]:
  assumes "valid_utf8 s"
    and "P []"
    and "\<And>c r. scalar_bytes c \<Longrightarrow> valid_utf8 r \<Longrightarrow> P r \<Longrightarrow> P (c @ r)"
  shows "P s"
  using assms(1)
proof (induction s rule: length_induct)
  case (1 s)
  show ?case
  proof (cases "s = []")
    case True
    with assms(2) show ?thesis by simp
  next
    case False
    with "1.prems" obtain c r where s: "s = c @ r" "scalar_bytes c" "valid_utf8 r"
      by (rule valid_utf8_scalarE)
    with scalar_bytes_nonempty [of c] have "length r < length s"
      by simp
    with "1.IH" s(3) have "P r"
      by blast
    with s show ?thesis
      by (simp add: assms(3))
  qed
qed

lemma valid_utf8_ascii_suffixD:
  assumes "valid_utf8 (a @ b)" and "list_all is_ascii b"
  shows "valid_utf8 a"
proof (cases b)
  case Nil
  with assms show ?thesis by simp
next
  case (Cons c r)
  with assms valid_utf8_sepD [of c a r] show ?thesis
    by simp
qed

lemma valid_utf8_trim_end_matches:
  assumes "valid_utf8 s" and "list_all is_ascii pat"
  shows "valid_utf8 (trim_end_matches s pat)"
proof -
  obtain n where n: "s = trim_end_matches s pat @ concat (replicate n pat)"
    using trim_end_matches_decompose by blast
  from assms(2) have "list_all is_ascii (concat (replicate n pat))"
    by (induction n) simp_all
  with assms(1) n valid_utf8_ascii_suffixD [of "trim_end_matches s pat" "concat (replicate n pat)"]
  show ?thesis
    by simp
qed

lemmas [rust_eval] = is_ascii_def to_str_valid to_string_lossy_valid valid_utf8_ascii

lemmas utf8_eval =
  to_string_lossy_def to_str_def valid_utf8_def utf8_chunks.simps(2) next_chunk.simps(2)
  utf8_char_width_def is_cont_def second_of_three_def second_of_four_def replacement_def

end
