(* ===== verification/Rust_Path.thy ===== *)
theory Rust_Path
  imports Utf8
begin

text \<open>
  \<^verbatim>\<open>std::path::Path\<close> on Unix, as far as \<^verbatim>\<open>src/main.rs\<close> uses it.  Every
  operation the program calls on a path (\<^verbatim>\<open>starts_with\<close>,
  \<^verbatim>\<open>strip_prefix\<close>, \<^verbatim>\<open>parent\<close>, \<^verbatim>\<open>iter\<close>) works on the path's
  components, never on its characters, so a path is modelled as its list
  of components and \<open>path_new\<close> is the parsing of a string into them, with
  the normalisation the standard library documents: repeated separators and
  a trailing separator are ignored, and \<^verbatim>\<open>.\<close> is dropped everywhere but at
  the very start of a relative path.
\<close>

section \<open>Components\<close>

datatype component = RootDir | CurDir | ParentDir | Normal string

type_synonym path = "component list"

datatype strip_prefix_error = StripPrefixError

definition piece_component :: "string \<Rightarrow> component" where
  "piece_component p = (if p = ''..'' then ParentDir else Normal p)"

definition has_root :: "string \<Rightarrow> bool" where
  "has_root s = starts_with s ''/''"

definition include_cur_dir :: "string \<Rightarrow> bool" where
  "include_cur_dir s = (\<not> has_root s \<and> (s = ''.'' \<or> starts_with s ''./''))"

definition path_new :: "string \<Rightarrow> path" where
  "path_new s =
     (if has_root s then [RootDir] else if include_cur_dir s then [CurDir] else [])
     @ map piece_component (filter (\<lambda>p. p \<noteq> [] \<and> p \<noteq> ''.'') (split_on CHR ''/'' s))"

text \<open>\<^verbatim>\<open>Component::as_os_str\<close> and \<^verbatim>\<open>Path::iter\<close>.\<close>

fun as_os_str :: "component \<Rightarrow> string" where
  "as_os_str RootDir = ''/''"
| "as_os_str CurDir = ''.''"
| "as_os_str ParentDir = ''..''"
| "as_os_str (Normal s) = s"

definition path_iter :: "path \<Rightarrow> string list" where
  "path_iter p = map as_os_str p"

section \<open>Operations\<close>

definition path_starts_with :: "path \<Rightarrow> path \<Rightarrow> bool" where
  "path_starts_with p base = prefix base p"

definition strip_prefix :: "path \<Rightarrow> path \<Rightarrow> (strip_prefix_error, path) result" where
  "strip_prefix p base =
     (if path_starts_with p base then Ok (drop (length base) p) else Err StripPrefixError)"

text \<open>
  \<^verbatim>\<open>Path::parent\<close>: the path without its last component; none for the empty
  path and for a path that ends in the root.
\<close>

definition parent :: "path \<Rightarrow> path option" where
  "parent p =
     (case rev p of
        [] \<Rightarrow> None
      | RootDir # _ \<Rightarrow> None
      | _ # r \<Rightarrow> Some (rev r))"

text \<open>
  \<^verbatim>\<open>Path::file_name\<close>: the last component if it is a normal one.
  \<^verbatim>\<open>Path::extension\<close>: what follows the last dot of the file name, if
  there is a dot and something stands before it; the standard library
  computes it with \<^verbatim>\<open>rsplit_file_at_dot\<close>.
\<close>

definition file_name :: "path \<Rightarrow> string option" where
  "file_name p = (case rev p of Normal s # _ \<Rightarrow> Some s | _ \<Rightarrow> None)"

definition rsplit_file_at_dot :: "string \<Rightarrow> string option \<times> string option" where
  "rsplit_file_at_dot f =
     (if f = ''..'' then (Some f, None)
      else if CHR ''.'' \<notin> set f then (None, Some f)
      else let after = last (split_on CHR ''.'' f);
               before = take (length f - Suc (length after)) f
           in if before = [] then (Some f, None) else (Some before, Some after))"

definition extension :: "path \<Rightarrow> string option" where
  "extension p =
     Option.bind (file_name p)
       (\<lambda>f. case rsplit_file_at_dot f of (Some before, after) \<Rightarrow> after | (None, after) \<Rightarrow> None)"

text \<open>
  \<^verbatim>\<open>Path::join\<close> with a relative name, on the strings: a separator is put
  between the two unless the directory is empty or ends with one.
\<close>

definition path_join :: "string \<Rightarrow> string \<Rightarrow> string" where
  "path_join dir nm = (if dir = [] \<or> last dir = CHR ''/'' then dir @ nm else dir @ ''/'' @ nm)"

text \<open>
  The string of a path (\<^verbatim>\<open>as_str\<close>), in normal form: the components with
  one separator between them.  The program takes the string of the parent
  of a manifest path; for the normalised paths that \<^verbatim>\<open>cargo metadata\<close>
  reports this is the slice of the original string that Rust returns.
\<close>

fun path_to_string :: "path \<Rightarrow> string" where
  "path_to_string (RootDir # cs) = ''/'' @ join (map as_os_str cs) ''/''"
| "path_to_string cs = join (map as_os_str cs) ''/''"

section \<open>Well-formed paths\<close>

text \<open>
  What parsing guarantees: the root and the current directory stand at the
  head only, and a normal component is a non-empty name without separator
  that is neither \<^verbatim>\<open>.\<close> nor \<^verbatim>\<open>..\<close>.
\<close>

definition clean_name :: "string \<Rightarrow> bool" where
  "clean_name p \<longleftrightarrow> p \<noteq> [] \<and> p \<noteq> ''.'' \<and> p \<noteq> ''..'' \<and> CHR ''/'' \<notin> set p"

fun body_component :: "component \<Rightarrow> bool" where
  "body_component (Normal p) = clean_name p"
| "body_component ParentDir = True"
| "body_component _ = False"

fun wf_path :: "path \<Rightarrow> bool" where
  "wf_path [] = True"
| "wf_path (RootDir # cs) = list_all body_component cs"
| "wf_path (CurDir # cs) = list_all body_component cs"
| "wf_path (c # cs) = list_all body_component (c # cs)"

lemmas [rust_eval] =
  piece_component_def has_root_def include_cur_dir_def path_new_def path_iter_def
  path_starts_with_def strip_prefix_def parent_def clean_name_def
  file_name_def rsplit_file_at_dot_def extension_def path_join_def

section \<open>Parsing\<close>

lemma body_component_piece:
  assumes "p \<noteq> []" and "p \<noteq> ''.''" and "CHR ''/'' \<notin> set p"
  shows "body_component (piece_component p)"
  using assms by (simp add: piece_component_def clean_name_def)

lemma list_all_body_pieces:
  "list_all body_component
     (map piece_component (filter (\<lambda>p. p \<noteq> [] \<and> p \<noteq> ''.'') (split_on CHR ''/'' s)))"
  by (auto simp: list_all_iff intro!: body_component_piece dest: split_on_no_sep)

lemma wf_path_body: "list_all body_component cs \<Longrightarrow> wf_path cs"
  by (cases cs rule: wf_path.cases) simp_all

text \<open>
  Every parsed path is well-formed: the root and the current
  directory stand at the head only, and the names are clean.
\<close>

lemma wf_path_new: "wf_path (path_new s)"
  by (simp add: path_new_def list_all_body_pieces wf_path_body)

text \<open>
  The components of a valid string are valid: the separator is an ASCII
  byte, so no character is cut.  A path that the program parses from a
  Rust string is converted back to strings without loss.
\<close>

lemma as_os_str_piece [simp]: "as_os_str (piece_component p) = p"
  by (simp add: piece_component_def)

lemma path_new_valid:
  assumes "valid_utf8 s"
  shows "list_all valid_utf8 (path_iter (path_new s))"
proof -
  have "is_ascii CHR ''/''"
    by (simp add: is_ascii_def)
  with assms have "list_all valid_utf8 (split_on CHR ''/'' s)"
    by (rule valid_utf8_split_on [rotated])
  then have "list_all valid_utf8
      (filter (\<lambda>p. p \<noteq> [] \<and> p \<noteq> ''.'') (split_on CHR ''/'' s))"
    by (simp add: list_all_iff)
  moreover have "valid_utf8 ''/''" and "valid_utf8 ''.''"
    by (simp_all add: rust_eval)
  ultimately show ?thesis
    by (simp add: path_new_def path_iter_def comp_def)
qed

text \<open>A string of clean names with single separators parses to those names.\<close>

lemma filter_clean_id:
  assumes "list_all clean_name ps"
  shows "filter (\<lambda>p. p \<noteq> [] \<and> p \<noteq> ''.'') ps = ps"
  using assms by (induction ps) (auto simp: clean_name_def)

lemma map_piece_clean:
  assumes "list_all clean_name ps"
  shows "map piece_component ps = map Normal ps"
  using assms by (induction ps) (auto simp: clean_name_def piece_component_def)

lemma clean_name_no_lead:
  assumes "clean_name p"
  shows "\<not> prefix ''/'' (p @ r)" and "\<not> prefix ''./'' (p @ r)" and "p @ r \<noteq> ''.''"
proof -
  from assms obtain a q where p: "p = a # q" and a: "a \<noteq> CHR ''/''"
    by (cases p) (auto simp: clean_name_def)
  from p a show "\<not> prefix ''/'' (p @ r)"
    by simp
  from p assms show "\<not> prefix ''./'' (p @ r)"
    by (cases q) (auto simp: clean_name_def)
  from p assms show "p @ r \<noteq> ''.''"
    by (auto simp: clean_name_def)
qed

lemma join_clean_not_rooted:
  assumes "list_all clean_name ps"
  shows "\<not> has_root (join ps ''/'')" and "\<not> include_cur_dir (join ps ''/'')"
proof -
  have "\<not> prefix ''/'' (join ps ''/'') \<and> \<not> prefix ''./'' (join ps ''/'') \<and> join ps ''/'' \<noteq> ''.''"
  proof (cases ps)
    case Nil
    then show ?thesis by simp
  next
    case (Cons x xs)
    then obtain r where "join ps ''/'' = x @ r"
      by (cases xs) auto
    moreover from Cons assms have "clean_name x"
      by simp
    ultimately show ?thesis
      by (simp add: clean_name_no_lead)
  qed
  then show "\<not> has_root (join ps ''/'')" and "\<not> include_cur_dir (join ps ''/'')"
    by (simp_all add: has_root_def include_cur_dir_def starts_with_def)
qed

lemma path_new_join_clean:
  assumes "list_all clean_name ps" and "ps \<noteq> []"
  shows "path_new (join ps ''/'') = map Normal ps"
proof -
  from assms have "split_on CHR ''/'' (join ps ''/'') = ps"
    by (intro split_on_join) (auto simp: list_all_iff clean_name_def)
  with assms(1) show ?thesis
    by (simp add: path_new_def join_clean_not_rooted filter_clean_id map_piece_clean)
qed

text \<open>
  The same names behind \<^verbatim>\<open>./\<close> parse to the current directory followed by
  the names, and behind \<^verbatim>\<open>/\<close> to the root followed by the names.
\<close>

lemma path_new_cur_dir_join:
  assumes "list_all clean_name ps" and "ps \<noteq> []"
  shows "path_new (''./'' @ join ps ''/'') = CurDir # map Normal ps"
proof -
  from assms have "split_on CHR ''/'' (join ps ''/'') = ps"
    by (intro split_on_join) (auto simp: list_all_iff clean_name_def)
  then have "split_on CHR ''/'' (''./'' @ join ps ''/'') = ''.'' # ps"
    by simp
  with assms(1) show ?thesis
    by (simp add: path_new_def has_root_def include_cur_dir_def starts_with_def
        filter_clean_id map_piece_clean)
qed

lemma path_new_root_join:
  assumes "list_all clean_name ps" and "ps \<noteq> []"
  shows "path_new (''/'' @ join ps ''/'') = RootDir # map Normal ps"
proof -
  from assms have "split_on CHR ''/'' (join ps ''/'') = ps"
    by (intro split_on_join) (auto simp: list_all_iff clean_name_def)
  then have "split_on CHR ''/'' (''/'' @ join ps ''/'') = [] # ps"
    by simp
  with assms(1) show ?thesis
    by (simp add: path_new_def has_root_def starts_with_def filter_clean_id map_piece_clean)
qed

text \<open>The first component of a path that is written with a leading \<^verbatim>\<open>./\<close> or \<^verbatim>\<open>/\<close>.\<close>

lemma path_new_dot_prefixed:
  assumes "starts_with s ''./''"
  shows "\<exists>body. path_new s = CurDir # body"
proof -
  from assms have "include_cur_dir s" and "\<not> has_root s"
    by (auto simp: include_cur_dir_def has_root_def starts_with_def prefix_def)
  then show ?thesis
    by (simp add: path_new_def)
qed

lemma path_new_rooted: "has_root s \<Longrightarrow> \<exists>body. path_new s = RootDir # body"
  by (simp add: path_new_def)

section \<open>Prefixes and parents\<close>

lemma strip_prefix_Ok_iff:
  "strip_prefix p base = Ok rel \<longleftrightarrow> p = base @ rel"
  by (auto simp: strip_prefix_def path_starts_with_def prefix_def)

lemma strip_prefix_Err_iff:
  "strip_prefix p base = Err e \<longleftrightarrow> \<not> path_starts_with p base"
  by (cases e) (simp add: strip_prefix_def)

lemma strip_prefix_append [simp]: "strip_prefix (base @ rel) base = Ok rel"
  by (simp add: strip_prefix_Ok_iff)

lemma path_starts_with_append [simp]: "path_starts_with (base @ rel) base"
  by (simp add: path_starts_with_def)

lemma parent_snoc:
  "parent (p @ [c]) = (if c = RootDir then None else Some p)"
  by (cases c) (simp_all add: parent_def)

lemma parent_Nil [simp]: "parent [] = None"
  by (simp add: parent_def)

lemma parent_Some_iff:
  "parent p = Some q \<longleftrightarrow> (\<exists>c. p = q @ [c] \<and> c \<noteq> RootDir)"
proof (cases p rule: rev_cases)
  case Nil
  then show ?thesis by simp
next
  case (snoc r c)
  then show ?thesis
    by (auto simp: parent_snoc)
qed

lemma wf_path_body_tail:
  assumes "wf_path p"
  shows "list_all body_component (tl p)"
  using assms by (cases p rule: wf_path.cases) simp_all

lemma wf_path_butlast:
  assumes "wf_path (p @ [c])"
  shows "wf_path p"
proof (cases p)
  case Nil
  then show ?thesis by simp
next
  case (Cons a q)
  with assms show ?thesis
    by (cases a) simp_all
qed

lemma wf_path_parent:
  assumes "wf_path p" and "parent p = Some q"
  shows "wf_path q"
  using assms by (auto simp: parent_Some_iff dest: wf_path_butlast)

text \<open>What is left after a prefix is stripped has no root and no current directory.\<close>

lemma wf_path_strip_prefix:
  assumes "wf_path p" and "strip_prefix p base = Ok rel" and "base \<noteq> []"
  shows "list_all body_component rel"
proof -
  from assms(2) have p: "p = base @ rel"
    by (simp add: strip_prefix_Ok_iff)
  with assms(3) obtain b bs where "p = b # bs @ rel"
    by (cases base) auto
  with assms(1) wf_path_body_tail [of p] show ?thesis
    by simp
qed

section \<open>Joining a name to a directory\<close>

lemma path_join_cases [case_names empty slash plain]:
  obtains (empty) "dir = []" "path_join dir nm = nm"
  | (slash) d where "dir = d @ ''/''" "path_join dir nm = d @ ''/'' @ nm"
  | (plain) "dir \<noteq> []" "last dir \<noteq> CHR ''/''" "path_join dir nm = dir @ ''/'' @ nm"
proof (cases "dir = []")
  case True
  then show ?thesis by (intro empty) (simp_all add: path_join_def)
next
  case False
  show ?thesis
  proof (cases "last dir = CHR ''/''")
    case True
    with False have "dir = butlast dir @ ''/''"
      by (metis append_butlast_last_id)
    with True False show ?thesis
      by (intro slash [of "butlast dir"]) (simp_all add: path_join_def)
  next
    case False
    with \<open>dir \<noteq> []\<close> show ?thesis by (intro plain) (simp_all add: path_join_def)
  qed
qed

lemma path_join_prefix: "prefix dir (path_join dir nm)"
  by (simp add: path_join_def)

lemma pieces_append_name:
  assumes "clean_name nm"
  shows "filter (\<lambda>p. p \<noteq> [] \<and> p \<noteq> ''.'') (split_on CHR ''/'' (d @ CHR ''/'' # nm)) =
         filter (\<lambda>p. p \<noteq> [] \<and> p \<noteq> ''.'') (split_on CHR ''/'' d) @ [nm]"
  using assms by (simp add: split_on_append split_on_no_sep_id clean_name_def)

lemma has_root_append [simp]: "d \<noteq> [] \<Longrightarrow> has_root (d @ r) = has_root d"
  by (cases d) (simp_all add: has_root_def starts_with_def)

lemma include_cur_dir_append_name:
  assumes "d \<noteq> []"
  shows "include_cur_dir (d @ CHR ''/'' # nm) = include_cur_dir d"
proof (cases d)
  case Nil
  with assms show ?thesis by simp
next
  case (Cons a r)
  then show ?thesis
    by (cases r) (auto simp: include_cur_dir_def has_root_def starts_with_def)
qed

lemma path_new_append_name:
  assumes "clean_name nm" and "d \<noteq> []"
  shows "path_new (d @ CHR ''/'' # nm) = path_new d @ [Normal nm]"
  using assms
  by (simp add: path_new_def pieces_append_name include_cur_dir_append_name piece_component_def
      clean_name_def)

lemma path_new_trailing_sep:
  assumes "d \<noteq> []"
  shows "path_new (d @ ''/'') = path_new d"
  using assms include_cur_dir_append_name [of d "[]"]
  by (simp add: path_new_def split_on_snoc_sep)

lemma path_new_clean [simp]: "clean_name nm \<Longrightarrow> path_new nm = [Normal nm]"
  using path_new_join_clean [of "[nm]"] by simp

lemma path_new_Nil [simp]: "path_new [] = []"
  by (simp add: rust_eval)

lemma path_new_slash [simp]: "path_new ''/'' = [RootDir]"
  by (simp add: rust_eval)

text \<open>
  Joining a clean name to a directory adds one normal component to the
  components of the directory, however the directory is written.
\<close>

lemma path_new_path_join:
  assumes "clean_name nm"
  shows "path_new (path_join dir nm) = path_new dir @ [Normal nm]"
proof (cases dir nm rule: path_join_cases)
  case empty
  with assms show ?thesis by simp
next
  case (slash d)
  show ?thesis
  proof (cases "d = []")
    case True
    with slash assms path_new_root_join [of "[nm]"] show ?thesis by simp
  next
    case False
    with slash assms show ?thesis
      by (simp add: path_new_append_name path_new_trailing_sep)
  qed
next
  case plain
  with assms show ?thesis
    by (simp add: path_new_append_name)
qed

section \<open>File names and extensions\<close>

lemma file_name_snoc [simp]: "file_name (p @ [Normal s]) = Some s"
  by (simp add: file_name_def)

lemma file_name_Nil [simp]: "file_name [] = None"
  by (simp add: file_name_def)

lemma file_name_Some_iff: "file_name p = Some s \<longleftrightarrow> (\<exists>q. p = q @ [Normal s])"
proof (cases p rule: rev_cases)
  case Nil
  then show ?thesis by simp
next
  case (snoc q c)
  then show ?thesis
    by (cases c) (simp_all add: file_name_def)
qed

text \<open>
  A file name has the extension \<^verbatim>\<open>rs\<close> exactly when it is a non-empty
  stem followed by \<^verbatim>\<open>.rs\<close>; the hidden file \<^verbatim>\<open>.rs\<close> has no extension.
\<close>

lemma rsplit_stem_rs:
  assumes "stem \<noteq> []"
  shows "rsplit_file_at_dot (stem @ ''.rs'') = (Some stem, Some ''rs'')"
proof -
  have "split_on CHR ''.'' (stem @ ''.rs'') = split_on CHR ''.'' stem @ [''rs'']"
    by (simp add: split_on_append)
  moreover from assms have "stem @ ''.rs'' \<noteq> ''..''"
    by (cases stem) auto
  ultimately show ?thesis
    using assms by (simp add: rsplit_file_at_dot_def)
qed

lemma rsplit_after_rs:
  assumes "rsplit_file_at_dot f = (Some before, Some ''rs'')"
  shows "before \<noteq> [] \<and> f = before @ ''.rs''"
proof -
  from assms have dot: "CHR ''.'' \<in> set f" and "f \<noteq> ''..''"
    by (auto simp: rsplit_file_at_dot_def split: if_splits)
  with assms have "last (split_on CHR ''.'' f) = ''rs''"
    and b: "before = take (length f - Suc (length (last (split_on CHR ''.'' f)))) f"
    and "before \<noteq> []"
    by (auto simp: rsplit_file_at_dot_def Let_def split: if_splits)
  with split_on_last [OF dot] show ?thesis
    by simp
qed

text \<open>
  A path has the extension \<^verbatim>\<open>rs\<close> exactly when its last component
  is a name made of a non-empty stem and \<^verbatim>\<open>.rs\<close>.
\<close>

lemma extension_rs_iff:
  "extension p = Some ''rs'' \<longleftrightarrow> (\<exists>q stem. p = q @ [Normal (stem @ ''.rs'')] \<and> stem \<noteq> [])"
proof
  assume "extension p = Some ''rs''"
  then obtain f where f: "file_name p = Some f"
    and e: "(case rsplit_file_at_dot f of (Some before, after) \<Rightarrow> after | (None, after) \<Rightarrow> None)
            = Some ''rs''"
    by (auto simp: extension_def bind_eq_Some_conv)
  obtain b a where ba: "rsplit_file_at_dot f = (b, a)"
    by (cases "rsplit_file_at_dot f")
  with e obtain before where "rsplit_file_at_dot f = (Some before, Some ''rs'')"
    by (cases b) simp_all
  then have "before \<noteq> [] \<and> f = before @ ''.rs''"
    by (intro rsplit_after_rs)
  with f show "\<exists>q stem. p = q @ [Normal (stem @ ''.rs'')] \<and> stem \<noteq> []"
    by (auto simp: file_name_Some_iff)
next
  assume "\<exists>q stem. p = q @ [Normal (stem @ ''.rs'')] \<and> stem \<noteq> []"
  then show "extension p = Some ''rs''"
    by (auto simp: extension_def rsplit_stem_rs)
qed

section \<open>The string of a path\<close>

text \<open>
  Parsing the string of a well-formed path gives the path back.  The
  lemmas on body components generalise those on clean names above to
  components that may be \<^verbatim>\<open>..\<close>.
\<close>

lemma body_os_str:
  assumes "body_component c"
  shows "as_os_str c \<noteq> [] \<and> as_os_str c \<noteq> ''.'' \<and> CHR ''/'' \<notin> set (as_os_str c) \<and>
         piece_component (as_os_str c) = c"
  using assms by (cases c) (simp_all add: clean_name_def piece_component_def)

lemma body_no_lead:
  assumes "body_component c"
  shows "\<not> prefix ''/'' (as_os_str c @ r) \<and> \<not> prefix ''./'' (as_os_str c @ r) \<and>
         as_os_str c @ r \<noteq> ''.''"
  using assms by (cases c) (simp_all add: clean_name_no_lead)

lemma pieces_body:
  assumes "list_all body_component cs" and "cs \<noteq> []"
  shows "map piece_component
           (filter (\<lambda>p. p \<noteq> [] \<and> p \<noteq> ''.'') (split_on CHR ''/'' (join (map as_os_str cs) ''/''))) = cs"
proof -
  from assms have "split_on CHR ''/'' (join (map as_os_str cs) ''/'') = map as_os_str cs"
    by (intro split_on_join) (auto simp: list_all_iff body_os_str)
  moreover from assms(1) have "filter (\<lambda>p. p \<noteq> [] \<and> p \<noteq> ''.'') (map as_os_str cs) = map as_os_str cs"
    by (induction cs) (simp_all add: body_os_str)
  moreover from assms(1) have "map piece_component (map as_os_str cs) = cs"
    by (induction cs) (simp_all add: body_os_str)
  ultimately show ?thesis
    by simp
qed

lemma path_new_body:
  assumes "list_all body_component cs"
  shows "path_new (join (map as_os_str cs) ''/'') = cs"
proof (cases cs)
  case Nil
  then show ?thesis by simp
next
  case (Cons c cs')
  then obtain r where "join (map as_os_str cs) ''/'' = as_os_str c @ r"
    by (cases cs') auto
  moreover from Cons assms have "body_component c"
    by simp
  ultimately have "\<not> has_root (join (map as_os_str cs) ''/'')"
    and "\<not> include_cur_dir (join (map as_os_str cs) ''/'')"
    by (simp_all add: has_root_def include_cur_dir_def starts_with_def body_no_lead)
  with assms Cons show ?thesis
    using pieces_body [of cs] by (simp add: path_new_def)
qed

lemma path_new_prefixed_body:
  assumes "list_all body_component cs" and "cs \<noteq> []"
  shows "path_new (''/'' @ join (map as_os_str cs) ''/'') = RootDir # cs"
    and "path_new (''./'' @ join (map as_os_str cs) ''/'') = CurDir # cs"
proof -
  let ?s = "join (map as_os_str cs) ''/''"
  have "split_on CHR ''/'' (''/'' @ ?s) = [] # split_on CHR ''/'' ?s"
    and "split_on CHR ''/'' (''./'' @ ?s) = ''.'' # split_on CHR ''/'' ?s"
    by (simp_all split: list.splits)
  with pieces_body [OF assms]
  show "path_new (''/'' @ ?s) = RootDir # cs" and "path_new (''./'' @ ?s) = CurDir # cs"
    by (simp_all add: path_new_def has_root_def include_cur_dir_def starts_with_def)
qed

text \<open>
  C39.  Printing a well-formed path and parsing the string gives the path
  back.
\<close>

lemma path_new_path_to_string:
  assumes "wf_path p"
  shows "path_new (path_to_string p) = p"
proof (cases p)
  case Nil
  then show ?thesis by simp
next
  case (Cons c cs)
  show ?thesis
  proof (cases c)
    case RootDir
    with Cons assms path_new_prefixed_body(1) [of cs] show ?thesis
      by (cases "cs = []") simp_all
  next
    case CurDir
    with Cons assms path_new_prefixed_body(2) [of cs] show ?thesis
      by (cases cs) (simp_all add: rust_eval join_Cons)
  next
    case ParentDir
    with Cons assms path_new_body [of p] show ?thesis by simp
  next
    case (Normal s)
    with Cons assms path_new_body [of p] show ?thesis by simp
  qed
qed

lemma path_new_path_to_string_witness:
  "wf_path [RootDir, Normal ''r'', ParentDir, Normal ''bevy_ui''] \<and>
   path_new (path_to_string [RootDir, Normal ''r'', ParentDir, Normal ''bevy_ui'']) =
     [RootDir, Normal ''r'', ParentDir, Normal ''bevy_ui'']"
proof -
  have h: "wf_path [RootDir, Normal ''r'', ParentDir, Normal ''bevy_ui'']"
    by (simp add: clean_name_def)
  from h path_new_path_to_string [OF h] show ?thesis ..
qed

end
