(* ===== verification/Module_Path.thy ===== *)
theory Module_Path
  imports Rust_Path
begin

text \<open>
  The module path resolver (\<^verbatim>\<open>src/main.rs\<close>, lines 84 to 128): from the
  path of a source file and the packages of \<^verbatim>\<open>cargo metadata\<close> to the
  qualified name of the module the file defines.  Of a package the
  program reads the name and the path of the manifest; the root of a
  package is the parent directory of its manifest.

  \<^verbatim>\<open>crate_root_for_file\<close> is a loop with two exits: the first package
  whose root is a prefix of the path, and, through the question mark, the
  first package whose manifest path has no parent.  \<^verbatim>\<open>resolve_module_path\<close>
  returns no result when a prefix cannot be stripped.
  \<^verbatim>\<open>relative_path_to_module_path\<close> converts every component with
  \<^verbatim>\<open>to_str\<close> and leaves out those that are not valid UTF-8; a path that
  comes from a Rust string has none.
\<close>

section \<open>Packages\<close>

record package =
  name :: string
  manifest_path :: string

record metadata =
  packages :: "package list"

definition crate_root :: "package \<Rightarrow> path option" where
  "crate_root pkg = parent (path_new (manifest_path pkg))"

section \<open>The resolver\<close>

fun crate_root_for_file_loop :: "path \<Rightarrow> package list \<Rightarrow> string option" where
  "crate_root_for_file_loop p [] = None"
| "crate_root_for_file_loop p (pkg # pkgs) =
     (case parent (path_new (manifest_path pkg)) of
        None \<Rightarrow> None
      | Some root \<Rightarrow>
          if path_starts_with p root then Some (name pkg)
          else crate_root_for_file_loop p pkgs)"

definition crate_root_for_file :: "path \<Rightarrow> metadata \<Rightarrow> string option" where
  "crate_root_for_file p md = crate_root_for_file_loop p (packages md)"

definition crate_root_path :: "string \<Rightarrow> metadata \<Rightarrow> path option" where
  "crate_root_path crate_name md =
     Option.bind (find (\<lambda>pkg. name pkg = crate_name) (packages md))
       (\<lambda>pkg. parent (path_new (manifest_path pkg)))"

definition relative_path_to_module_path :: "path \<Rightarrow> string" where
  "relative_path_to_module_path p =
     join (filter (\<lambda>s. s \<noteq> ''mod'')
             (map (\<lambda>s. trim_end_matches s ''.rs'') (List.map_filter to_str (path_iter p))))
       ''::''"

definition resolve_module_path :: "string \<Rightarrow> metadata \<Rightarrow> string option" where
  "resolve_module_path path_str md =
     (let p = path_new path_str
      in case crate_root_for_file p md of
           Some crate_name \<Rightarrow>
             (case crate_root_path crate_name md of
                None \<Rightarrow> None
              | Some root \<Rightarrow>
                  (case ok (strip_prefix p root) of
                     None \<Rightarrow> None
                   | Some relative_path \<Rightarrow>
                       Some (format_qualified crate_name
                               (relative_path_to_module_path relative_path))))
         | None \<Rightarrow>
             (case ok (strip_prefix p (path_new ''src'')) of
                None \<Rightarrow> None
              | Some relative_path \<Rightarrow> Some (relative_path_to_module_path relative_path)))"

lemmas [rust_eval] =
  crate_root_def crate_root_for_file_def crate_root_path_def relative_path_to_module_path_def
  resolve_module_path_def

section \<open>Which package a file belongs to\<close>

text \<open>
  A package owns a path when its root is a prefix of the path.  The loop
  stops at the first package that owns the path or has no root; only in
  the first case it yields a name.
\<close>

definition owns :: "path \<Rightarrow> package \<Rightarrow> bool" where
  "owns p pkg = (case crate_root pkg of None \<Rightarrow> False | Some root \<Rightarrow> path_starts_with p root)"

lemma crate_root_for_file_loop_find:
  "crate_root_for_file_loop p pkgs =
     (case find (\<lambda>pkg. crate_root pkg = None \<or> owns p pkg) pkgs of
        None \<Rightarrow> None
      | Some pkg \<Rightarrow> if crate_root pkg = None then None else Some (name pkg))"
  by (induction pkgs) (auto simp: crate_root_def owns_def split: option.splits)

lemma crate_root_for_file_loop_rooted:
  assumes "\<forall>pkg \<in> set pkgs. crate_root pkg \<noteq> None"
  shows "crate_root_for_file_loop p pkgs = map_option name (find (owns p) pkgs)"
  using assms by (induction pkgs) (auto simp: crate_root_def owns_def split: option.splits)

lemma crate_root_for_file_rooted:
  assumes "\<forall>pkg \<in> set (packages md). crate_root pkg \<noteq> None"
  shows "crate_root_for_file p md = map_option name (find (owns p) (packages md))"
  using assms by (simp add: crate_root_for_file_def crate_root_for_file_loop_rooted)

lemma crate_root_path_find:
  "crate_root_path nm md =
     Option.bind (find (\<lambda>pkg. name pkg = nm) (packages md)) crate_root"
  by (simp add: crate_root_path_def crate_root_def [abs_def])

lemma find_by_name_distinct:
  assumes "distinct (map name pkgs)" and "pkg \<in> set pkgs"
  shows "find (\<lambda>q. name q = name pkg) pkgs = Some pkg"
  using assms by (induction pkgs) (auto simp: image_iff)

section \<open>From the relative path to the module path\<close>

text \<open>
  A segment is plain when the conversion, the trimming and the filter
  leave it as it is: it is valid UTF-8, does not end in \<^verbatim>\<open>.rs\<close> and is
  not \<^verbatim>\<open>mod\<close>.
\<close>

definition plain_segment :: "string \<Rightarrow> bool" where
  "plain_segment s \<longleftrightarrow> valid_utf8 s \<and> \<not> suffix ''.rs'' s \<and> s \<noteq> ''mod''"

definition module_segment :: "string \<Rightarrow> string" where
  "module_segment s = trim_end_matches s ''.rs''"

lemma map_filter_to_str: "List.map_filter to_str segs = filter valid_utf8 segs"
  by (induction segs) (simp_all add: List.map_filter_simps to_str_def)

lemma relative_path_to_module_path_segments:
  "relative_path_to_module_path p =
     join (filter (\<lambda>s. s \<noteq> ''mod'') (map module_segment (filter valid_utf8 (path_iter p))))
       ''::''"
  by (simp add: relative_path_to_module_path_def map_filter_to_str module_segment_def [abs_def])

lemma relative_path_to_module_path_Normal:
  assumes "list_all valid_utf8 segs"
  shows "relative_path_to_module_path (map Normal segs) =
         join (filter (\<lambda>s. s \<noteq> ''mod'') (map module_segment segs)) ''::''"
proof -
  from assms have "filter valid_utf8 segs = segs"
    by (simp add: list_all_iff)
  then show ?thesis
    by (simp add: relative_path_to_module_path_segments path_iter_def comp_def)
qed

lemma plain_segments_valid: "list_all plain_segment segs \<Longrightarrow> list_all valid_utf8 segs"
  by (simp add: list_all_iff plain_segment_def)

lemma module_segment_plain: "plain_segment s \<Longrightarrow> module_segment s = s"
  by (simp add: plain_segment_def module_segment_def trim_end_matches_stop)

lemma module_segment_file: "plain_segment s \<Longrightarrow> module_segment (s @ ''.rs'') = s"
  using trim_end_matches_append_pat [of "''.rs''" s]
  by (simp add: plain_segment_def module_segment_def trim_end_matches_stop)

lemma module_segments_plain:
  assumes "list_all plain_segment segs"
  shows "filter (\<lambda>s. s \<noteq> ''mod'') (map module_segment segs) = segs"
  using assms by (induction segs) (auto simp: module_segment_plain plain_segment_def)

lemma module_segment_mod_file: "module_segment ''mod.rs'' = ''mod''"
  by (simp add: module_segment_def rust_eval)

text \<open>
  C9.  A relative path of plain directory names that ends in a file
  \<^verbatim>\<open>stem.rs\<close> becomes the directory names and the stem joined with
  \<^verbatim>\<open>::\<close>: \<^verbatim>\<open>foo/bar.rs\<close> becomes \<^verbatim>\<open>foo::bar\<close>.
\<close>

theorem module_path_of_file:
  assumes "list_all plain_segment (dirs @ [stem])"
  shows "relative_path_to_module_path (map Normal (dirs @ [stem @ ''.rs''])) =
         join (dirs @ [stem]) ''::''"
proof -
  from assms have "filter (\<lambda>s. s \<noteq> ''mod'') (map module_segment (dirs @ [stem @ ''.rs''])) =
      filter (\<lambda>s. s \<noteq> ''mod'') (map module_segment (dirs @ [stem]))"
    by (simp add: module_segment_plain module_segment_file)
  moreover from assms have "list_all valid_utf8 (dirs @ [stem @ ''.rs''])"
    by (simp add: list_all_iff plain_segment_def valid_utf8_append rust_eval)
  ultimately show ?thesis
    using assms by (simp only: relative_path_to_module_path_Normal module_segments_plain)
qed

theorem module_path_of_file_witness:
  "list_all plain_segment ([''foo''] @ [''bar'']) \<and>
   relative_path_to_module_path (map Normal ([''foo''] @ [''bar'' @ ''.rs''])) = ''foo::bar''"
proof -
  have h: "list_all plain_segment ([''foo''] @ [''bar''])"
    by (simp add: plain_segment_def rust_eval)
  from module_path_of_file [OF h] have
    "relative_path_to_module_path (map Normal ([''foo''] @ [''bar'' @ ''.rs''])) = ''foo::bar''"
    by simp
  with h show ?thesis ..
qed

text \<open>
  C10.  The file \<^verbatim>\<open>mod.rs\<close> stands for its directory: the marker segment
  is dropped, so \<^verbatim>\<open>foo/mod.rs\<close> becomes \<^verbatim>\<open>foo\<close>.
\<close>

theorem module_path_of_mod_file:
  assumes "list_all plain_segment dirs"
  shows "relative_path_to_module_path (map Normal (dirs @ [''mod.rs''])) = join dirs ''::''"
  using assms relative_path_to_module_path_Normal [of "dirs @ [''mod.rs'']"]
  by (simp add: module_segments_plain module_segment_mod_file plain_segments_valid rust_eval)

theorem module_path_of_mod_file_witness:
  "list_all plain_segment [''foo''] \<and>
   relative_path_to_module_path (map Normal ([''foo''] @ [''mod.rs''])) = ''foo''"
proof -
  have h: "list_all plain_segment [''foo'']"
    by (simp add: plain_segment_def rust_eval)
  from module_path_of_mod_file [OF h] have
    "relative_path_to_module_path (map Normal ([''foo''] @ [''mod.rs''])) = ''foo''"
    by simp
  with h show ?thesis ..
qed

text \<open>
  The trimming and the filter are applied to every segment, not to the
  last one only: a directory \<^verbatim>\<open>mod\<close> disappears, a directory
  \<^verbatim>\<open>util.rs\<close> loses its ending, and repeated endings are all removed.
\<close>

lemma every_segment_rewritten:
  "relative_path_to_module_path (map Normal [''mod'', ''util.rs'', ''x.rs.rs'']) = ''util::x''"
  by (simp add: rust_eval)

lemma module_segment_mod [simp]: "module_segment ''mod'' = ''mod''"
  by (simp add: module_segment_def rust_eval)

text \<open>
  C40.  A segment \<^verbatim>\<open>mod\<close> is dropped wherever it stands, not only as
  the name of the file: a directory named \<^verbatim>\<open>mod\<close> leaves no trace in
  the module path.
\<close>

theorem mod_segment_dropped_anywhere:
  "relative_path_to_module_path (map Normal (pre @ ''mod'' # post)) =
   relative_path_to_module_path (map Normal (pre @ post))"
  unfolding relative_path_to_module_path_segments by (simp add: path_iter_def rust_eval)

text \<open>
  C26.  For a path parsed from a Rust string, and for what is left of it
  behind a prefix, the conversion \<^verbatim>\<open>to_str\<close> in \<^verbatim>\<open>filter_map\<close> always
  succeeds: no component is dropped by it, and the module path is made of
  all components.
\<close>

theorem rust_string_keeps_components:
  assumes "valid_utf8 s"
  shows "relative_path_to_module_path (drop n (path_new s)) =
         join (filter (\<lambda>s. s \<noteq> ''mod'')
                 (map (\<lambda>s. trim_end_matches s ''.rs'') (path_iter (drop n (path_new s))))) ''::''"
proof -
  from assms have "list_all valid_utf8 (path_iter (path_new s))"
    by (rule path_new_valid)
  then have "list_all valid_utf8 (path_iter (drop n (path_new s)))"
    by (auto simp: list_all_iff path_iter_def dest: in_set_dropD)
  then have "filter valid_utf8 (path_iter (drop n (path_new s))) = path_iter (drop n (path_new s))"
    by (simp add: list_all_iff)
  then show ?thesis
    by (simp add: relative_path_to_module_path_segments module_segment_def [abs_def])
qed

theorem rust_string_keeps_components_witness:
  "valid_utf8 ''src/foo/bar.rs'' \<and>
   relative_path_to_module_path (drop 1 (path_new ''src/foo/bar.rs'')) =
     join (filter (\<lambda>s. s \<noteq> ''mod'')
             (map (\<lambda>s. trim_end_matches s ''.rs'')
                (path_iter (drop 1 (path_new ''src/foo/bar.rs''))))) ''::''"
proof -
  have h: "valid_utf8 ''src/foo/bar.rs''"
    by (simp add: rust_eval)
  from h rust_string_keeps_components [OF h, of 1] show ?thesis ..
qed

text \<open>
  A component that is not valid UTF-8, which no Rust string has, would
  be left out of the module path.
\<close>

lemma invalid_segment_dropped:
  "relative_path_to_module_path [Normal ''a'', Normal [CHR 0xFF], Normal ''b.rs''] = ''a::b''"
  by (simp add: relative_path_to_module_path_segments path_iter_def module_segment_def rust_eval)
    (simp add: utf8_eval)

section \<open>Resolution\<close>

text \<open>
  C31.  The package a file is attributed to is the first one, in the order
  of the metadata, whose root is a prefix of the path; but a package
  whose manifest path has no parent ends the search without a result even
  if a later package would own the path.
\<close>

theorem crate_root_for_file_first:
  "crate_root_for_file p md =
     (case find (\<lambda>pkg. crate_root pkg = None \<or> owns p pkg) (packages md) of
        None \<Rightarrow> None
      | Some pkg \<Rightarrow> if crate_root pkg = None then None else Some (name pkg))"
  by (simp add: crate_root_for_file_def crate_root_for_file_loop_find)

text \<open>
  The manifest paths that \<^verbatim>\<open>cargo metadata\<close> reports are absolute.  The
  root of such a package starts at the root directory, so the package owns
  no relative path.
\<close>

definition absolute_packages :: "metadata \<Rightarrow> bool" where
  "absolute_packages md \<longleftrightarrow> list_all (\<lambda>pkg. has_root (manifest_path pkg)) (packages md)"

fun relative :: "path \<Rightarrow> bool" where
  "relative (RootDir # cs) = False"
| "relative cs = True"

lemma parent_rooted:
  assumes "parent (RootDir # body) = Some q"
  shows "\<exists>r. q = RootDir # r"
proof (cases body rule: rev_cases)
  case Nil
  with assms show ?thesis by (simp add: parent_def)
next
  case (snoc r c)
  with assms parent_snoc [of "RootDir # r" c] show ?thesis
    by (simp split: if_splits)
qed

lemma relative_not_owned:
  assumes "has_root (manifest_path pkg)" and "relative p"
  shows "\<not> owns p pkg"
proof (cases "crate_root pkg")
  case None
  then show ?thesis by (simp add: owns_def)
next
  case (Some q)
  with assms(1) obtain r where "q = RootDir # r"
    using path_new_rooted parent_rooted unfolding crate_root_def by metis
  with Some assms(2) show ?thesis
    by (cases p rule: relative.cases) (simp_all add: owns_def path_starts_with_def)
qed

lemma relative_no_package:
  assumes "absolute_packages md" and "relative p"
  shows "crate_root_for_file p md = None"
proof -
  have "\<not> owns p pkg" if "pkg \<in> set (packages md)" for pkg
    using that assms by (intro relative_not_owned) (simp_all add: absolute_packages_def list_all_iff)
  then show ?thesis
    by (auto simp: crate_root_for_file_def crate_root_for_file_loop_find find_None_iff
        dest: find_Some_iff [THEN iffD1] split: option.splits)
qed

lemma resolve_no_package:
  "crate_root_for_file (path_new s) md = None \<Longrightarrow>
     resolve_module_path s md =
       map_option relative_path_to_module_path (ok (strip_prefix (path_new s) (path_new ''src'')))"
  by (simp add: resolve_module_path_def split: option.splits)

lemma path_new_src [simp]: "path_new ''src'' = [Normal ''src'']"
  by (simp add: rust_eval)

lemma clean_name_src [simp]: "clean_name ''src''"
  by (simp add: clean_name_def)

text \<open>
  C25.  A file given by its path relative to the project, \<^verbatim>\<open>src/\<close>
  followed by clean names, resolves to the module path of the names behind
  \<^verbatim>\<open>src\<close>, without the name of a package.
\<close>

theorem resolve_local:
  assumes "absolute_packages md" and "list_all clean_name segs" and "segs \<noteq> []"
  shows "resolve_module_path (join (''src'' # segs) ''/'') md =
         Some (relative_path_to_module_path (map Normal segs))"
proof -
  from assms(2) have "path_new (join (''src'' # segs) ''/'') = map Normal (''src'' # segs)"
    by (intro path_new_join_clean) simp_all
  moreover from this assms(1) have "crate_root_for_file (path_new (join (''src'' # segs) ''/'')) md = None"
    by (intro relative_no_package) simp_all
  ultimately show ?thesis
    by (simp add: resolve_no_package strip_prefix_def path_starts_with_def)
qed

theorem resolve_local_witness:
  "absolute_packages 
       \<lparr>packages = [\<lparr>name = ''app'', manifest_path = ''/home/u/app/Cargo.toml''\<rparr>]\<rparr> \<and>
   list_all clean_name [''foo'', ''bar.rs''] \<and>
   resolve_module_path (join (''src'' # [''foo'', ''bar.rs'']) ''/'') 
       \<lparr>packages = [\<lparr>name = ''app'', manifest_path = ''/home/u/app/Cargo.toml''\<rparr>]\<rparr> = Some ''foo::bar''"
proof -
  have h: "absolute_packages 
       \<lparr>packages = [\<lparr>name = ''app'', manifest_path = ''/home/u/app/Cargo.toml''\<rparr>]\<rparr>"
    "list_all clean_name [''foo'', ''bar.rs'']" "[''foo'', ''bar.rs''] \<noteq> []"
    by (simp_all add: absolute_packages_def rust_eval)
  from resolve_local [OF h] have
    "resolve_module_path (join (''src'' # [''foo'', ''bar.rs'']) ''/'') 
       \<lparr>packages = [\<lparr>name = ''app'', manifest_path = ''/home/u/app/Cargo.toml''\<rparr>]\<rparr> = Some ''foo::bar''"
    by (simp add: relative_path_to_module_path_def path_iter_def rust_eval)
  with h show ?thesis by simp
qed

lemma resolve_cur_dir:
  assumes "absolute_packages md" and "path_new s = CurDir # body"
  shows "resolve_module_path s md = None"
proof -
  from assms have "crate_root_for_file (path_new s) md = None"
    by (intro relative_no_package) simp_all
  with assms(2) show ?thesis
    by (simp add: resolve_no_package strip_prefix_def path_starts_with_def)
qed

text \<open>
  A path that starts with \<^verbatim>\<open>./\<close> is never resolved when the
  manifest paths are absolute: its first component is the current
  directory, which neither a package root nor \<^verbatim>\<open>src\<close> matches.  These
  are the paths that the discovery hands on for the project itself, since
  it walks \<^verbatim>\<open>./src\<close>.
\<close>

theorem resolve_dot_prefixed_fails:
  assumes "absolute_packages md" and "starts_with s ''./''"
  shows "resolve_module_path s md = None"
proof -
  from assms(2) obtain body where "path_new s = CurDir # body"
    using path_new_dot_prefixed by blast
  with assms(1) show ?thesis
    by (rule resolve_cur_dir)
qed

theorem resolve_dot_prefixed_fails_witness:
  "absolute_packages 
       \<lparr>packages = [\<lparr>name = ''app'', manifest_path = ''/home/u/app/Cargo.toml''\<rparr>]\<rparr> \<and>
   starts_with ''./src/foo/bar.rs'' ''./'' \<and>
   resolve_module_path ''./src/foo/bar.rs'' 
       \<lparr>packages = [\<lparr>name = ''app'', manifest_path = ''/home/u/app/Cargo.toml''\<rparr>]\<rparr> = None"
proof -
  have h: "absolute_packages 
       \<lparr>packages = [\<lparr>name = ''app'', manifest_path = ''/home/u/app/Cargo.toml''\<rparr>]\<rparr>"
    "starts_with ''./src/foo/bar.rs'' ''./''"
    by (simp_all add: absolute_packages_def rust_eval)
  from resolve_dot_prefixed_fails [OF h] h show ?thesis by simp
qed

text \<open>
  C11.  A file below the root of a package, in a list of packages with
  distinct names that all have a root, resolves to the name of the first
  package that owns it, followed by the module path of what is left of
  the path behind that root, the directory \<^verbatim>\<open>src\<close> included.
\<close>

theorem resolve_in_package:
  assumes "distinct (map name (packages md))"
    and "\<forall>pkg \<in> set (packages md). crate_root pkg \<noteq> None"
    and "find (owns (path_new s)) (packages md) = Some pkg"
    and "crate_root pkg = Some root"
  shows "resolve_module_path s md =
         Some (format_qualified (name pkg)
                 (relative_path_to_module_path (drop (length root) (path_new s))))"
proof -
  from assms(3) have pkg: "pkg \<in> set (packages md)" and own: "owns (path_new s) pkg"
    by (auto simp: find_Some_iff)
  from assms(2,3) have "crate_root_for_file (path_new s) md = Some (name pkg)"
    by (simp add: crate_root_for_file_rooted)
  moreover from assms(1,4) pkg have "crate_root_path (name pkg) md = Some root"
    by (simp add: crate_root_path_find find_by_name_distinct)
  moreover from own assms(4) have "strip_prefix (path_new s) root = Ok (drop (length root) (path_new s))"
    by (simp add: owns_def strip_prefix_def)
  ultimately show ?thesis
    by (simp add: resolve_module_path_def)
qed

text \<open>
  The witness is a workspace whose root package is listed before a member:
  a file of the member is attributed to the root package, and the
  directories down to the member and \<^verbatim>\<open>src\<close> become modules.
\<close>

theorem resolve_in_package_witness:
  "resolve_module_path ''/r/bevy/crates/bevy_ecs/src/world/mod.rs''
     \<lparr>packages =
        [\<lparr>name = ''bevy'', manifest_path = ''/r/bevy/Cargo.toml''\<rparr>,
         \<lparr>name = ''bevy_ecs'', manifest_path = ''/r/bevy/crates/bevy_ecs/Cargo.toml''\<rparr>]\<rparr>
   = Some ''bevy::crates::bevy_ecs::src::world''"
proof -
  let ?bevy = "\<lparr>name = ''bevy'', manifest_path = ''/r/bevy/Cargo.toml''\<rparr>"
  let ?ecs = "\<lparr>name = ''bevy_ecs'', manifest_path = ''/r/bevy/crates/bevy_ecs/Cargo.toml''\<rparr>"
  let ?md = "\<lparr>packages = [?bevy, ?ecs]\<rparr>"
  let ?s = "''/r/bevy/crates/bevy_ecs/src/world/mod.rs''"
  have r: "crate_root ?bevy = Some [RootDir, Normal ''r'', Normal ''bevy'']"
    "crate_root ?ecs =
       Some [RootDir, Normal ''r'', Normal ''bevy'', Normal ''crates'', Normal ''bevy_ecs'']"
    by (simp_all add: rust_eval)
  have p: "path_new ?s =
      [RootDir, Normal ''r'', Normal ''bevy'', Normal ''crates'', Normal ''bevy_ecs'',
       Normal ''src'', Normal ''world'', Normal ''mod.rs'']"
    by (simp add: rust_eval)
  have h: "distinct (map name (packages ?md))"
    "\<forall>pkg \<in> set (packages ?md). crate_root pkg \<noteq> None"
    "find (owns (path_new ?s)) (packages ?md) = Some ?bevy"
    by (simp_all add: r p owns_def path_starts_with_def)
  have "format_qualified (name ?bevy)
      (relative_path_to_module_path
         (drop (length [RootDir, Normal ''r'', Normal ''bevy'']) (path_new ?s))) =
    ''bevy::crates::bevy_ecs::src::world''"
    by (simp add: p rust_eval)
  with resolve_in_package [OF h r(1)] show ?thesis
    by simp
qed

text \<open>
  C32.  With two packages of one name (two versions of a crate in the
  dependency graph) the root is looked up by name and may be the root of
  the other package: a file that the first package of that name does not
  own is not resolved, although the loop has found its package.
\<close>

theorem resolve_same_name_fails:
  assumes "\<forall>pkg \<in> set (packages md). crate_root pkg \<noteq> None"
    and "find (owns (path_new s)) (packages md) = Some pkg"
    and "find (\<lambda>q. name q = name pkg) (packages md) = Some q"
    and "\<not> owns (path_new s) q"
  shows "resolve_module_path s md = None"
proof -
  from assms(1,2) have "crate_root_for_file (path_new s) md = Some (name pkg)"
    by (simp add: crate_root_for_file_rooted)
  moreover from assms(3,4) have "crate_root_path (name pkg) md = None \<or>
      (\<exists>r. crate_root_path (name pkg) md = Some r \<and> \<not> path_starts_with (path_new s) r)"
    by (cases "crate_root q") (simp_all add: crate_root_path_find owns_def)
  ultimately show ?thesis
    by (auto simp: resolve_module_path_def strip_prefix_def)
qed

theorem resolve_same_name_fails_witness:
  "resolve_module_path ''/r/bevy_ecs-0.15/src/lib.rs''
     \<lparr>packages =
        [\<lparr>name = ''bevy_ecs'', manifest_path = ''/r/bevy_ecs-0.14/Cargo.toml''\<rparr>,
         \<lparr>name = ''bevy_ecs'', manifest_path = ''/r/bevy_ecs-0.15/Cargo.toml''\<rparr>]\<rparr>
   = None"
proof -
  let ?old = "\<lparr>name = ''bevy_ecs'', manifest_path = ''/r/bevy_ecs-0.14/Cargo.toml''\<rparr>"
  let ?new = "\<lparr>name = ''bevy_ecs'', manifest_path = ''/r/bevy_ecs-0.15/Cargo.toml''\<rparr>"
  let ?md = "\<lparr>packages = [?old, ?new]\<rparr>"
  let ?s = "''/r/bevy_ecs-0.15/src/lib.rs''"
  have r: "crate_root ?old = Some [RootDir, Normal ''r'', Normal ''bevy_ecs-0.14'']"
    "crate_root ?new = Some [RootDir, Normal ''r'', Normal ''bevy_ecs-0.15'']"
    by (simp_all add: rust_eval)
  have p: "path_new ?s =
      [RootDir, Normal ''r'', Normal ''bevy_ecs-0.15'', Normal ''src'', Normal ''lib.rs'']"
    by (simp add: rust_eval)
  have h: "\<forall>pkg \<in> set (packages ?md). crate_root pkg \<noteq> None"
    "find (owns (path_new ?s)) (packages ?md) = Some ?new"
    "find (\<lambda>q. name q = name ?new) (packages ?md) = Some ?old"
    "\<not> owns (path_new ?s) ?old"
    by (simp_all add: r p owns_def path_starts_with_def)
  from resolve_same_name_fails [OF h] show ?thesis .
qed

end
