(* ===== verification/Discovery.thy ===== *)
theory Discovery
  imports Module_Path
begin

text \<open>
  Source discovery and the unit filter (\<^verbatim>\<open>src/main.rs\<close>, lines 45 to 77):
  \<^verbatim>\<open>collect_source_files\<close> walks a directory with \<^verbatim>\<open>WalkDir\<close>, prunes
  what \<^verbatim>\<open>should_include_dir\<close> rejects and pushes the paths with the
  extension \<^verbatim>\<open>rs\<close>; \<^verbatim>\<open>collect_dependency_files\<close> does so for the
  directory of every package whose name starts with \<^verbatim>\<open>bevy_\<close>.

  The file system is a function from the string of a directory to the tree
  found there, if any.  A tree is a regular file or a directory with its
  entries in the order in which the operating system lists them; a regular
  file stands for every entry the walk does not descend into (files,
  symbolic links, which \<^verbatim>\<open>WalkDir\<close> does not follow by default, and
  directories that cannot be read, whose error entry
  \<^verbatim>\<open>filter_map(|e| e.ok())\<close> drops).  The names of the entries are
  sequences of bytes that need not be valid UTF-8: the program converts a
  name with \<^verbatim>\<open>to_str\<close> before it compares it, and the path it pushes with
  \<^verbatim>\<open>to_string_lossy\<close>.  The walk is \<^verbatim>\<open>WalkDir\<close> in its
  default configuration under \<^verbatim>\<open>filter_entry\<close>: the root first, a
  directory before its content, the predicate asked of every entry,
  the root included, and a rejected directory not entered.
\<close>

section \<open>The file system\<close>

datatype fs_node = RegularFile | Directory "(string \<times> fs_node) list"

type_synonym file_system = "string \<Rightarrow> fs_node option"

record dir_entry =
  entry_path :: string

section \<open>The walk\<close>

fun walk_entry :: "(dir_entry \<Rightarrow> bool) \<Rightarrow> string \<Rightarrow> fs_node \<Rightarrow> dir_entry list" where
  "walk_entry keep p RegularFile =
     (if keep \<lparr>entry_path = p\<rparr> then [\<lparr>entry_path = p\<rparr>] else [])"
| "walk_entry keep p (Directory children) =
     (if keep \<lparr>entry_path = p\<rparr>
      then \<lparr>entry_path = p\<rparr> #
           concat (map (\<lambda>(nm, child). walk_entry keep (path_join p nm) child) children)
      else [])"

definition walk_dir :: "file_system \<Rightarrow> (dir_entry \<Rightarrow> bool) \<Rightarrow> string \<Rightarrow> dir_entry list" where
  "walk_dir fs keep dir = (case fs dir of None \<Rightarrow> [] | Some node \<Rightarrow> walk_entry keep dir node)"

section \<open>Discovery\<close>

definition should_include_dir :: "dir_entry \<Rightarrow> bool" where
  "should_include_dir entry =
     (let nm = (case Option.bind (file_name (path_new (entry_path entry))) to_str of
                  Some n \<Rightarrow> n
                | None \<Rightarrow> '''')
      in \<not> (nm = ''examples'' \<or> nm = ''tests''))"

definition push_source_file :: "dir_entry \<Rightarrow> string list \<Rightarrow> string list" where
  "push_source_file entry source_files =
     (if Option.bind (extension (path_new (entry_path entry))) to_str = Some ''rs''
      then source_files @ [to_string_lossy (entry_path entry)] else source_files)"

definition collect_source_files :: "file_system \<Rightarrow> string \<Rightarrow> string list \<Rightarrow> string list" where
  "collect_source_files fs dir source_files =
     fold push_source_file (walk_dir fs should_include_dir dir) source_files"

section \<open>The unit filter\<close>

definition dependency_step :: "file_system \<Rightarrow> package \<Rightarrow> string list \<Rightarrow> string list" where
  "dependency_step fs pkg source_files =
     (if starts_with (name pkg) ''bevy_''
      then (case parent (path_new (manifest_path pkg)) of
              Some source \<Rightarrow> collect_source_files fs (path_to_string source) source_files
            | None \<Rightarrow> source_files)
      else source_files)"

definition collect_dependency_files :: "file_system \<Rightarrow> metadata \<Rightarrow> string list \<Rightarrow> string list" where
  "collect_dependency_files fs md source_files = fold (dependency_step fs) (packages md) source_files"

text \<open>
  The names that the program compares a converted name with are ASCII, so
  the comparisons come out as they do on the bytes: a name that is not
  valid UTF-8 is none of them, before and after the conversion.
\<close>

lemma bind_to_str_eq:
  assumes "valid_utf8 t"
  shows "Option.bind x to_str = Some t \<longleftrightarrow> x = Some t"
  using assms by (cases x) (auto simp: to_str_def)

lemma should_include_dir_name:
  "should_include_dir entry \<longleftrightarrow>
     file_name (path_new (entry_path entry)) \<notin> {Some ''examples'', Some ''tests''}"
proof (cases "file_name (path_new (entry_path entry))")
  case None
  then show ?thesis
    by (simp add: should_include_dir_def)
next
  case (Some n)
  have "valid_utf8 ''examples''" and "valid_utf8 ''tests''"
    by (simp_all add: rust_eval)
  with Some show ?thesis
    by (auto simp: should_include_dir_def to_str_def)
qed

lemma push_source_file_rs:
  "push_source_file entry source_files =
     (if extension (path_new (entry_path entry)) = Some ''rs''
      then source_files @ [to_string_lossy (entry_path entry)] else source_files)"
proof -
  have "valid_utf8 ''rs''"
    by (simp add: rust_eval)
  then show ?thesis
    by (simp add: push_source_file_def bind_to_str_eq)
qed

lemmas [rust_eval] =
  walk_dir_def should_include_dir_name push_source_file_rs collect_source_files_def
  dependency_step_def collect_dependency_files_def

section \<open>Names below a directory\<close>

text \<open>
  The specification of the walk speaks of an entry by the names that lead
  to it from the root of the walk: \<open>lookup_node\<close> follows the names through
  a tree, \<open>below\<close> is the path string of the entry, and \<open>kept\<close> says that
  the predicate accepts the root and every entry on the way, the last
  included.  In a well-formed tree the names are clean and the names in one
  directory differ.
\<close>

fun lookup_node :: "fs_node \<Rightarrow> string list \<Rightarrow> fs_node option" where
  "lookup_node node [] = Some node"
| "lookup_node RegularFile (n # ns) = None"
| "lookup_node (Directory children) (n # ns) =
     (case map_of children n of None \<Rightarrow> None | Some child \<Rightarrow> lookup_node child ns)"

definition below :: "string \<Rightarrow> string list \<Rightarrow> string" where
  "below p ns = foldl path_join p ns"

fun kept :: "(dir_entry \<Rightarrow> bool) \<Rightarrow> string \<Rightarrow> string list \<Rightarrow> bool" where
  "kept keep p [] = keep \<lparr>entry_path = p\<rparr>"
| "kept keep p (n # ns) = (keep \<lparr>entry_path = p\<rparr> \<and> kept keep (path_join p n) ns)"

fun wf_node :: "fs_node \<Rightarrow> bool" where
  "wf_node RegularFile = True"
| "wf_node (Directory children) =
     (distinct (map fst children) \<and>
      list_all (\<lambda>(nm, child). clean_name nm \<and> wf_node child) children)"

text \<open>
  A source directory for the examples: a file at the top, a directory
  \<^verbatim>\<open>tests\<close>, a module directory with a \<^verbatim>\<open>mod.rs\<close>, a text file, a
  hidden file \<^verbatim>\<open>.rs\<close> and a directory whose name ends in \<^verbatim>\<open>.rs\<close>,
  a file \<^verbatim>\<open>tests.rs\<close>, and a directory \<^verbatim>\<open>fixtures\<close>.
\<close>

definition example_src :: fs_node where
  "example_src =
     Directory
       [(''main.rs'', RegularFile),
        (''tests'', Directory [(''t.rs'', RegularFile)]),
        (''foo'', Directory [(''mod.rs'', RegularFile), (''README.md'', RegularFile),
                            (''.rs'', RegularFile), (''gen.rs'', Directory [])]),
        (''tests.rs'', RegularFile),
        (''fixtures'', Directory [(''f.rs'', RegularFile)])]"

definition example_fs :: file_system where
  "example_fs dir = (if dir = ''./src'' then Some example_src else None)"

lemma wf_example_src: "wf_node example_src"
  by (simp add: example_src_def rust_eval)

lemma below_simps [simp]:
  "below p [] = p" "below p (n # ns) = below (path_join p n) ns"
  by (simp_all add: below_def)

section \<open>The walk and its specification\<close>

lemma walk_entry_pruned:
  "\<not> keep \<lparr>entry_path = p\<rparr> \<Longrightarrow> walk_entry keep p node = []"
  by (cases node) simp_all

lemma walk_entry_cases:
  assumes "e \<in> set (walk_entry keep p node)"
  obtains (root) "e = \<lparr>entry_path = p\<rparr>" "keep \<lparr>entry_path = p\<rparr>"
  | (child) children nm child where "node = Directory children" "(nm, child) \<in> set children"
      "keep \<lparr>entry_path = p\<rparr>" "e \<in> set (walk_entry keep (path_join p nm) child)"
  using assms by (cases node) (auto split: if_splits)

lemma walk_entry_root:
  "keep \<lparr>entry_path = p\<rparr> \<Longrightarrow> \<lparr>entry_path = p\<rparr> \<in> set (walk_entry keep p node)"
  by (cases node) simp_all

lemma walk_entry_child:
  assumes "keep \<lparr>entry_path = p\<rparr>" and "(nm, child) \<in> set children"
    and "e \<in> set (walk_entry keep (path_join p nm) child)"
  shows "e \<in> set (walk_entry keep p (Directory children))"
  using assms by auto

lemma walk_entry_prefix:
  "e \<in> set (walk_entry keep p node) \<Longrightarrow> prefix p (entry_path e)"
proof (induction keep p node rule: walk_entry.induct)
  case (1 keep p)
  then show ?case by (simp split: if_splits)
next
  case (2 keep p children)
  from "2.prems" show ?case
  proof (cases rule: walk_entry_cases)
    case root
    then show ?thesis by simp
  next
    case (child cs nm c)
    with "2.IH" [of "(nm, c)" nm c] have "prefix (path_join p nm) (entry_path e)"
      by simp
    with path_join_prefix [of p nm] show ?thesis
      by (rule prefix_order.trans)
  qed
qed

text \<open>Every entry of the walk is reached by names of the tree, and the predicate accepts the way.\<close>

lemma walk_entry_sound:
  assumes "wf_node node" and "e \<in> set (walk_entry keep p node)"
  shows "\<exists>ns. entry_path e = below p ns \<and> lookup_node node ns \<noteq> None \<and> kept keep p ns"
  using assms
proof (induction keep p node rule: walk_entry.induct)
  case (1 keep p)
  then have "entry_path e = below p [] \<and> lookup_node RegularFile [] \<noteq> None \<and> kept keep p []"
    by (simp split: if_splits)
  then show ?case ..
next
  case (2 keep p children)
  from "2.prems"(2) show ?case
  proof (cases rule: walk_entry_cases)
    case root
    then have "entry_path e = below p [] \<and> lookup_node (Directory children) [] \<noteq> None \<and> kept keep p []"
      by simp
    then show ?thesis ..
  next
    case (child cs nm c)
    with "2.prems"(1) have c: "wf_node c" and m: "map_of children nm = Some c"
      by (auto simp: list_all_iff)
    with child "2.IH" [of "(nm, c)" nm c] obtain ns where
      "entry_path e = below (path_join p nm) ns" "lookup_node c ns \<noteq> None"
      "kept keep (path_join p nm) ns"
      by auto
    with child m have "entry_path e = below p (nm # ns) \<and>
        lookup_node (Directory children) (nm # ns) \<noteq> None \<and> kept keep p (nm # ns)"
      by simp
    then show ?thesis ..
  qed
qed

text \<open>Every entry of the tree with an accepted way is an entry of the walk.\<close>

lemma walk_entry_complete:
  assumes "lookup_node node ns \<noteq> None" and "kept keep p ns"
  shows "\<lparr>entry_path = below p ns\<rparr> \<in> set (walk_entry keep p node)"
  using assms
proof (induction ns arbitrary: p node)
  case Nil
  then show ?case by (simp add: walk_entry_root)
next
  case (Cons n ns)
  from Cons.prems(1) obtain children child where node: "node = Directory children"
    and m: "map_of children n = Some child" and l: "lookup_node child ns \<noteq> None"
    by (cases node) (auto split: option.splits)
  from l Cons.prems(2) have "\<lparr>entry_path = below (path_join p n) ns\<rparr>
      \<in> set (walk_entry keep (path_join p n) child)"
    by (intro Cons.IH) simp_all
  with m Cons.prems(2) show ?case
    unfolding node by (intro walk_entry_child [of _ _ n child]) (auto dest: map_of_SomeD)
qed

section \<open>The components of a discovered path\<close>

lemma lookup_node_clean:
  assumes "wf_node node" and "lookup_node node ns \<noteq> None"
  shows "list_all clean_name ns"
  using assms
proof (induction ns arbitrary: node)
  case Nil
  show ?case by simp
next
  case (Cons n ns)
  from Cons.prems(2) obtain children child where node: "node = Directory children"
    and m: "map_of children n = Some child" and l: "lookup_node child ns \<noteq> None"
    by (cases node) (auto split: option.splits)
  from m have "(n, child) \<in> set children"
    by (rule map_of_SomeD)
  with Cons.prems(1) node have "clean_name n" and "wf_node child"
    by (auto simp: list_all_iff)
  with l Cons.IH show ?case
    by simp
qed

lemma path_new_below:
  assumes "list_all clean_name ns"
  shows "path_new (below p ns) = path_new p @ map Normal ns"
  using assms by (induction ns arbitrary: p) (simp_all add: path_new_path_join)

lemma should_include_dir_join:
  assumes "clean_name n"
  shows "should_include_dir \<lparr>entry_path = path_join p n\<rparr> \<longleftrightarrow> n \<noteq> ''examples'' \<and> n \<noteq> ''tests''"
  using assms by (simp add: should_include_dir_name path_new_path_join)

lemma kept_should_include_dir:
  assumes "list_all clean_name ns"
  shows "kept should_include_dir p ns \<longleftrightarrow>
         should_include_dir \<lparr>entry_path = p\<rparr> \<and> ''examples'' \<notin> set ns \<and> ''tests'' \<notin> set ns"
  using assms
proof (induction ns arbitrary: p)
  case Nil
  show ?case by simp
next
  case (Cons n ns)
  then show ?case
    by (auto simp: should_include_dir_join)
qed

lemma walk_entry_paths:
  assumes "wf_node node"
  shows "x \<in> entry_path ` set (walk_entry keep p node) \<longleftrightarrow>
         (\<exists>ns. x = below p ns \<and> lookup_node node ns \<noteq> None \<and> kept keep p ns)"
proof
  assume "x \<in> entry_path ` set (walk_entry keep p node)"
  then obtain e where "e \<in> set (walk_entry keep p node)" and "x = entry_path e"
    by blast
  with walk_entry_sound [OF assms, of e keep p]
  show "\<exists>ns. x = below p ns \<and> lookup_node node ns \<noteq> None \<and> kept keep p ns"
    by simp
next
  assume "\<exists>ns. x = below p ns \<and> lookup_node node ns \<noteq> None \<and> kept keep p ns"
  then obtain ns where "x = below p ns" "lookup_node node ns \<noteq> None" "kept keep p ns"
    by blast
  then have "\<lparr>entry_path = x\<rparr> \<in> set (walk_entry keep p node)"
    by (simp add: walk_entry_complete)
  then show "x \<in> entry_path ` set (walk_entry keep p node)"
    by force
qed

text \<open>
  C17.  In a well-formed tree the paths of the walk are exactly the paths
  of the entries that are reached from the root through entries the
  predicate accepts, the root and the entry itself included.
\<close>

theorem walk_entry_spec:
  assumes "wf_node node"
  shows "entry_path ` set (walk_entry keep p node) =
         {below p ns | ns. lookup_node node ns \<noteq> None \<and> kept keep p ns}"
  using walk_entry_paths [OF assms] by blast

theorem walk_entry_spec_witness:
  "entry_path ` set (walk_entry should_include_dir ''./src'' example_src) =
   {below ''./src'' ns | ns.
      lookup_node example_src ns \<noteq> None \<and> kept should_include_dir ''./src'' ns}"
  by (rule walk_entry_spec) (rule wf_example_src)

section \<open>What discovery collects\<close>

lemma fold_push_source_file:
  "fold push_source_file es acc =
     acc @ map to_string_lossy
             (filter (\<lambda>s. extension (path_new s) = Some ''rs'') (map entry_path es))"
  by (induction es arbitrary: acc) (simp_all add: push_source_file_rs)

lemma collect_source_files_filter:
  "collect_source_files fs dir acc =
     acc @ map to_string_lossy
             (filter (\<lambda>s. extension (path_new s) = Some ''rs'')
                (map entry_path (walk_dir fs should_include_dir dir)))"
  by (simp add: collect_source_files_def fold_push_source_file)

lemma collect_source_files_acc:
  "collect_source_files fs dir acc = acc @ collect_source_files fs dir []"
  by (simp add: collect_source_files_filter)

text \<open>
  A valid beginning of the directory is a beginning of every collected
  path; what follows it may have been replaced.
\<close>

lemma collect_source_files_prefix:
  assumes "x \<in> set (collect_source_files fs dir [])" and "valid_utf8 pre" and "prefix pre dir"
  shows "prefix pre x"
proof -
  from assms(1) obtain y where x: "x = to_string_lossy y" and "prefix dir y"
    by (auto simp: collect_source_files_filter walk_dir_def dest: walk_entry_prefix
        split: option.splits)
  with assms(3) obtain r where "y = pre @ r"
    by (auto simp: prefix_def)
  with x assms(2) show ?thesis
    by (simp add: to_string_lossy_append)
qed

text \<open>What is collected is valid UTF-8, whatever the names in the tree are.\<close>

lemma collect_source_files_valid:
  assumes "x \<in> set (collect_source_files fs dir [])"
  shows "valid_utf8 x"
  using assms by (auto simp: collect_source_files_filter valid_to_string_lossy)

lemma collect_source_files_missing:
  "fs dir = None \<Longrightarrow> collect_source_files fs dir acc = acc"
  by (simp add: collect_source_files_filter walk_dir_def)

lemma collect_source_files_mem:
  assumes "fs dir = Some node" and "wf_node node"
  shows "x \<in> set (collect_source_files fs dir []) \<longleftrightarrow>
         (\<exists>ns. x = to_string_lossy (below dir ns) \<and> lookup_node node ns \<noteq> None \<and>
               should_include_dir \<lparr>entry_path = dir\<rparr> \<and>
               ''examples'' \<notin> set ns \<and> ''tests'' \<notin> set ns \<and>
               extension (path_new dir @ map Normal ns) = Some ''rs'')"
proof -
  have "x \<in> set (collect_source_files fs dir []) \<longleftrightarrow>
      (\<exists>y. x = to_string_lossy y \<and>
         y \<in> entry_path ` set (walk_entry should_include_dir dir node) \<and>
         extension (path_new y) = Some ''rs'')"
    using assms(1) by (auto simp: collect_source_files_filter walk_dir_def)
  also have "\<dots> \<longleftrightarrow>
      (\<exists>ns. x = to_string_lossy (below dir ns) \<and> lookup_node node ns \<noteq> None \<and>
         kept should_include_dir dir ns \<and> extension (path_new (below dir ns)) = Some ''rs'')"
    unfolding walk_entry_paths [OF assms(2)] by blast
  also have "\<dots> \<longleftrightarrow>
      (\<exists>ns. x = to_string_lossy (below dir ns) \<and> lookup_node node ns \<noteq> None \<and>
      should_include_dir \<lparr>entry_path = dir\<rparr> \<and> ''examples'' \<notin> set ns \<and> ''tests'' \<notin> set ns \<and>
      extension (path_new dir @ map Normal ns) = Some ''rs'')"
  proof -
    have "kept should_include_dir dir ns \<and> extension (path_new (below dir ns)) = Some ''rs'' \<longleftrightarrow>
        should_include_dir \<lparr>entry_path = dir\<rparr> \<and> ''examples'' \<notin> set ns \<and> ''tests'' \<notin> set ns \<and>
        extension (path_new dir @ map Normal ns) = Some ''rs''"
      if "lookup_node node ns \<noteq> None" for ns
      using lookup_node_clean [OF assms(2) that]
      by (simp add: kept_should_include_dir path_new_below)
    then show ?thesis
      by blast
  qed
  finally show ?thesis .
qed

text \<open>
  C16.  From a well-formed tree at the directory, discovery collects
  exactly the entries with the extension \<^verbatim>\<open>rs\<close> on whose way from the
  directory no name is \<^verbatim>\<open>examples\<close> or \<^verbatim>\<open>tests\<close>, provided the
  directory itself bears neither name.
\<close>

theorem collect_source_files_spec:
  assumes "fs dir = Some node" and "wf_node node"
  shows "set (collect_source_files fs dir []) =
         {to_string_lossy (below dir ns) | ns.
            lookup_node node ns \<noteq> None \<and> should_include_dir \<lparr>entry_path = dir\<rparr> \<and>
            ''examples'' \<notin> set ns \<and> ''tests'' \<notin> set ns \<and>
            extension (path_new dir @ map Normal ns) = Some ''rs''}"
  using collect_source_files_mem [of fs dir node, OF assms] by blast

theorem collect_source_files_spec_witness:
  "set (collect_source_files example_fs ''./src'' []) =
   {to_string_lossy (below ''./src'' ns) | ns.
      lookup_node example_src ns \<noteq> None \<and> should_include_dir \<lparr>entry_path = ''./src''\<rparr> \<and>
      ''examples'' \<notin> set ns \<and> ''tests'' \<notin> set ns \<and>
      extension (path_new ''./src'' @ map Normal ns) = Some ''rs''}"
  by (rule collect_source_files_spec) (simp_all add: example_fs_def wf_example_src)

text \<open>
  On the example: the directory \<^verbatim>\<open>tests\<close> is pruned and the file
  \<^verbatim>\<open>tests.rs\<close> is not; the hidden file \<^verbatim>\<open>.rs\<close> has no extension; the
  directory \<^verbatim>\<open>gen.rs\<close> is collected like a file, since the entry is not
  asked whether it is one; the directory \<^verbatim>\<open>fixtures\<close> is entered.
\<close>

lemma collect_source_files_example:
  "collect_source_files example_fs ''./src'' [] =
     [''./src/main.rs'', ''./src/foo/mod.rs'', ''./src/foo/gen.rs'', ''./src/tests.rs'',
      ''./src/fixtures/f.rs'']"
  by (simp add: example_fs_def example_src_def rust_eval)

section \<open>Names that are not valid UTF-8\<close>

text \<open>
  With valid names on the way the collected path is the path of the
  entry.  Where a name is not valid, the collected path has a replacement
  character in its place and is not the path of the entry any more.
\<close>

lemma valid_utf8_path_join:
  "valid_utf8 dir \<Longrightarrow> valid_utf8 nm \<Longrightarrow> valid_utf8 (path_join dir nm)"
  by (simp add: path_join_def valid_utf8_append valid_utf8_sep is_ascii_def)

lemma valid_utf8_below:
  "valid_utf8 p \<Longrightarrow> list_all valid_utf8 ns \<Longrightarrow> valid_utf8 (below p ns)"
  by (induction ns arbitrary: p) (simp_all add: valid_utf8_path_join)

lemma to_string_lossy_below:
  "valid_utf8 p \<Longrightarrow> list_all valid_utf8 ns \<Longrightarrow> to_string_lossy (below p ns) = below p ns"
  by (simp add: to_string_lossy_valid valid_utf8_below)

definition latin1_src :: fs_node where
  "latin1_src = Directory [([CHR 0x63, CHR 0x61, CHR 0x66, CHR 0xE9] @ ''.rs'', RegularFile)]"

lemma collect_source_files_latin1:
  "collect_source_files (\<lambda>dir. Some latin1_src) ''./src'' [] =
     [''./src/'' @ [CHR 0x63, CHR 0x61, CHR 0x66] @ replacement @ ''.rs'']"
  by (simp add: latin1_src_def rust_eval) (simp add: utf8_eval)

text \<open>
  C33.  A directory that bears an excluded name yields nothing when the
  walk starts at it, as for a package that lies in a directory
  \<^verbatim>\<open>examples\<close>.
\<close>

theorem excluded_root_yields_nothing:
  assumes "\<not> should_include_dir \<lparr>entry_path = dir\<rparr>"
  shows "collect_source_files fs dir acc = acc"
  using assms
  by (simp add: collect_source_files_filter walk_dir_def walk_entry_pruned split: option.splits)

theorem excluded_root_yields_nothing_witness:
  "collect_source_files (\<lambda>dir. Some example_src) ''/r/bevy_ui/examples'' [] = []"
  by (rule excluded_root_yields_nothing) (simp add: rust_eval)

section \<open>What the unit filter collects\<close>

text \<open>The files of one package: those below the parent of its manifest.\<close>

definition package_files :: "file_system \<Rightarrow> package \<Rightarrow> string list" where
  "package_files fs pkg =
     (case crate_root pkg of
        None \<Rightarrow> []
      | Some root \<Rightarrow> collect_source_files fs (path_to_string root) [])"

lemma dependency_step_files:
  "dependency_step fs pkg acc =
     acc @ (if starts_with (name pkg) ''bevy_'' then package_files fs pkg else [])"
  using collect_source_files_acc [of fs _ acc]
  by (simp add: dependency_step_def package_files_def crate_root_def split: option.splits)

lemma collect_dependency_files_concat:
  "collect_dependency_files fs md acc =
     acc @ concat (map (package_files fs)
                     (filter (\<lambda>pkg. starts_with (name pkg) ''bevy_'') (packages md)))"
proof -
  have "fold (dependency_step fs) pkgs acc =
      acc @ concat (map (package_files fs) (filter (\<lambda>pkg. starts_with (name pkg) ''bevy_'') pkgs))"
    for pkgs
    by (induction pkgs arbitrary: acc) (simp_all add: dependency_step_files)
  then show ?thesis
    by (simp add: collect_dependency_files_def)
qed

text \<open>
  C22.  The unit filter appends, in the order of the metadata, the files
  of the packages whose name starts with \<^verbatim>\<open>bevy_\<close>; the other packages
  are not looked at.
\<close>

theorem collect_dependency_files_spec:
  "collect_dependency_files fs md acc =
     acc @ concat (map (package_files fs)
                     (filter (\<lambda>pkg. starts_with (name pkg) ''bevy_'') (packages md)))"
  by (rule collect_dependency_files_concat)

text \<open>The files of a package with an absolute manifest path have absolute paths.\<close>

lemma path_to_string_rooted: "has_root (path_to_string (RootDir # cs))"
  by (simp add: has_root_def starts_with_def)

lemma package_files_rooted:
  assumes "has_root (manifest_path pkg)" and "x \<in> set (package_files fs pkg)"
  shows "has_root x"
proof -
  from assms(2) obtain root where root: "crate_root pkg = Some root"
    and x: "x \<in> set (collect_source_files fs (path_to_string root) [])"
    by (cases "crate_root pkg") (simp_all add: package_files_def)
  from assms(1) root obtain cs where "root = RootDir # cs"
    using path_new_rooted parent_rooted unfolding crate_root_def by metis
  with collect_source_files_prefix [OF x, of "''/''"] show ?thesis
    by (simp add: has_root_def starts_with_def rust_eval)
qed

lemma collect_dependency_files_rooted:
  assumes "absolute_packages md" and "x \<in> set (collect_dependency_files fs md [])"
  shows "has_root x"
  using assms
  by (auto simp: collect_dependency_files_concat absolute_packages_def list_all_iff
      intro: package_files_rooted)

text \<open>
  The vector of source files holds strings: every path that the discovery
  or the unit filter pushes is valid UTF-8, whatever the names in the file
  system are, so the resolver is called on Rust strings only.
\<close>

theorem discovered_paths_valid:
  assumes "x \<in> set (collect_dependency_files fs md (collect_source_files fs dir []))"
  shows "valid_utf8 x"
proof -
  have "valid_utf8 y" if "y \<in> set (package_files fs pkg)" for y pkg
    using that by (cases "crate_root pkg") (auto simp: package_files_def collect_source_files_valid)
  with assms show ?thesis
    by (auto simp: collect_dependency_files_concat collect_source_files_valid)
qed

end
