(* ===== verification/Tokens.thy ===== *)
theory Tokens
  imports Rust_Str
begin

text \<open>
  The token streams inside attributes (\<^verbatim>\<open>proc_macro2::TokenStream\<close>) and
  the two ways \<^verbatim>\<open>src/main.rs\<close> looks at them: as text, through
  \<^verbatim>\<open>to_string()\<close> (the test-guard check), and as a comma-separated list
  of paths, through \<^verbatim>\<open>syn\<close>'s \<^verbatim>\<open>parse_nested_meta\<close> (the check of
  \<^verbatim>\<open>derive\<close> and \<^verbatim>\<open>reflect\<close> attributes).  A stream that
  \<^verbatim>\<open>syn::parse_file\<close> reads from source text has no group without
  delimiter, so the delimiters are the three brackets.

  \<^verbatim>\<open>parse_nested_meta\<close> calls its closure once per path, in order, and
  stops at the first syntax error; the closures of the program only set
  flags and always succeed, so a closure is a function from the path to a
  change of the caller's state, and what was set before an error stays set.
\<close>

section \<open>Token trees\<close>

datatype delimiter = Parenthesis | Brace | Bracket

datatype spacing = Alone | Joint

datatype token_tree =
    Group delimiter "token_tree list"
  | Ident string
  | Punct char spacing
  | Literal string

type_synonym token_stream = "token_tree list"

section \<open>Display\<close>

fun delim_open :: "delimiter \<Rightarrow> string" where
  "delim_open Parenthesis = ''(''"
| "delim_open Brace = ''{ ''"
| "delim_open Bracket = ''[''"

fun delim_close :: "delimiter \<Rightarrow> string" where
  "delim_close Parenthesis = '')''"
| "delim_close Brace = ''}''"
| "delim_close Bracket = '']''"

fun is_joint :: "token_tree \<Rightarrow> bool" where
  "is_joint (Punct c Joint) = True"
| "is_joint _ = False"

text \<open>
  Tokens are written with one space between them, except after a
  punctuation character that is joint with the next token.  The flag of
  \<open>stream_fmt\<close> says whether a space is due before the next token.
\<close>

fun tree_fmt :: "token_tree \<Rightarrow> string"
  and stream_fmt :: "bool \<Rightarrow> token_tree list \<Rightarrow> string" where
  "tree_fmt (Group d ts) =
     delim_open d @ stream_fmt False ts @ (if d = Brace \<and> ts \<noteq> [] then '' '' else []) @ delim_close d"
| "tree_fmt (Ident s) = s"
| "tree_fmt (Punct c sp) = [c]"
| "tree_fmt (Literal s) = s"
| "stream_fmt space [] = []"
| "stream_fmt space (t # ts) =
     (if space then '' '' else []) @ tree_fmt t @ stream_fmt (\<not> is_joint t) ts"

definition to_string :: "token_stream \<Rightarrow> string" where
  "to_string ts = stream_fmt False ts"

section \<open>Paths of attributes\<close>

text \<open>
  A path as attributes have it (\<^verbatim>\<open>syn::Path\<close> in module style: segments
  carry no generic arguments).  \<^verbatim>\<open>Path::is_ident\<close> holds for a path of one
  segment without leading colons.
\<close>

record syn_path =
  leading_colon :: bool
  segments :: "string list"

definition is_ident :: "syn_path \<Rightarrow> string \<Rightarrow> bool" where
  "is_ident p ident \<longleftrightarrow> \<not> leading_colon p \<and> segments p = [ident]"

definition path_of_ident :: "string \<Rightarrow> syn_path" where
  "path_of_ident i = \<lparr>leading_colon = False, segments = [i]\<rparr>"

section \<open>Parsing nested meta items\<close>

datatype syn_error = ExpectedNestedAttribute | UnexpectedToken | ExpectedIdent | ExpectedComma

text \<open>\<^verbatim>\<open>::\<close> is two colons, the first joint with the second.\<close>

fun peek_path_sep :: "token_stream \<Rightarrow> token_stream option" where
  "peek_path_sep (Punct c1 Joint # Punct c2 sp # rest) =
     (if c1 = CHR '':'' \<and> c2 = CHR '':'' then Some rest else None)"
| "peek_path_sep ts = None"

lemma peek_path_sep_length:
  "peek_path_sep ts = Some rest \<Longrightarrow> length rest < length ts"
  by (induction ts rule: peek_path_sep.induct) (auto split: if_splits)

function parse_segments ::
  "string list \<Rightarrow> token_stream \<Rightarrow> (syn_error, string list \<times> token_stream) result" where
  "parse_segments acc ts =
     (case peek_path_sep ts of
        None \<Rightarrow> Ok (acc, ts)
      | Some rest \<Rightarrow>
          (case rest of
             Ident i # rest' \<Rightarrow> parse_segments (acc @ [i]) rest'
           | _ \<Rightarrow> Err ExpectedIdent))"
  by pat_completeness auto
termination
  by (relation "measure (\<lambda>(acc, ts). length ts)") (auto dest: peek_path_sep_length)

declare parse_segments.simps [simp del]

definition parse_meta_path :: "token_stream \<Rightarrow> (syn_error, syn_path \<times> token_stream) result" where
  "parse_meta_path ts =
     (let (colon, ts1) = (case peek_path_sep ts of Some r \<Rightarrow> (True, r) | None \<Rightarrow> (False, ts))
      in case ts1 of
           Ident i # ts2 \<Rightarrow>
             (case parse_segments [i] ts2 of
                Inl e \<Rightarrow> Err e
              | Inr (segs, rest) \<Rightarrow> Ok (\<lparr>leading_colon = colon, segments = segs\<rparr>, rest))
         | [] \<Rightarrow> Err ExpectedNestedAttribute
         | _ \<Rightarrow> Err UnexpectedToken)"

lemma parse_segments_length:
  "parse_segments acc ts = Ok (segs, rest) \<Longrightarrow> length rest \<le> length ts"
proof (induction acc ts rule: parse_segments.induct)
  case (1 acc ts)
  show ?case
  proof (cases "peek_path_sep ts")
    case None
    with "1.prems" show ?thesis
      by (simp add: parse_segments.simps [of acc ts])
  next
    case (Some r)
    with "1.prems" obtain i r' where r: "r = Ident i # r'"
      and p: "parse_segments (acc @ [i]) r' = Ok (segs, rest)"
      by (auto simp: parse_segments.simps [of acc ts] split: list.splits token_tree.splits)
    from Some r p "1.IH" have "length rest \<le> length r'"
      by blast
    with Some r peek_path_sep_length [of ts r] show ?thesis
      by simp
  qed
qed

lemma parse_meta_path_length:
  assumes "parse_meta_path ts = Ok (p, rest)"
  shows "length rest < length ts"
proof -
  obtain colon ts1 where c: "(case peek_path_sep ts of Some r \<Rightarrow> (True, r) | None \<Rightarrow> (False, ts)) = (colon, ts1)"
    by fastforce
  then have le: "length ts1 \<le> length ts"
    by (auto split: option.splits dest: peek_path_sep_length)
  from assms c obtain i ts2 segs where "ts1 = Ident i # ts2" "parse_segments [i] ts2 = Ok (segs, rest)"
    by (auto simp: parse_meta_path_def split: list.splits token_tree.splits sum.splits)
  with le parse_segments_length [of "[i]" ts2 segs rest] show ?thesis
    by simp
qed

text \<open>
  The loop of \<^verbatim>\<open>parse_nested_meta\<close>: a path, the closure, then the end of
  the input or a comma; a trailing comma is accepted.
\<close>

function parse_nested_meta_loop ::
  "(syn_path \<Rightarrow> 's \<Rightarrow> 's) \<Rightarrow> token_stream \<Rightarrow> 's \<Rightarrow> (syn_error, unit) result \<times> 's" where
  "parse_nested_meta_loop logic ts st =
     (case parse_meta_path ts of
        Inl e \<Rightarrow> (Err e, st)
      | Inr (p, rest) \<Rightarrow>
          (let st' = logic p st
           in case rest of
                [] \<Rightarrow> (Ok (), st')
              | Punct c sp # rest' \<Rightarrow>
                  if c = CHR '','' then
                    (if rest' = [] then (Ok (), st') else parse_nested_meta_loop logic rest' st')
                  else (Err ExpectedComma, st')
              | _ \<Rightarrow> (Err ExpectedComma, st')))"
  by pat_completeness auto
termination
  by (relation "measure (\<lambda>(logic, ts, st). length ts)") (auto dest: parse_meta_path_length)

declare parse_nested_meta_loop.simps [simp del]

definition parse_nested_meta ::
  "(syn_path \<Rightarrow> 's \<Rightarrow> 's) \<Rightarrow> token_stream \<Rightarrow> 's \<Rightarrow> (syn_error, unit) result \<times> 's" where
  "parse_nested_meta logic ts st =
     (if ts = [] then (Ok (), st) else parse_nested_meta_loop logic ts st)"

text \<open>The paths the closure is called with, in order.\<close>

definition nested_paths :: "token_stream \<Rightarrow> syn_path list" where
  "nested_paths ts = snd (parse_nested_meta (\<lambda>p acc. acc @ [p]) ts [])"

lemmas [rust_eval] =
  to_string_def is_ident_def path_of_ident_def parse_meta_path_def parse_nested_meta_def
  nested_paths_def parse_segments.simps parse_nested_meta_loop.simps

section \<open>The calls of the closure\<close>

text \<open>
  One turn of the loop either fails before the closure is called, or calls
  it and stops, or calls it and goes on behind a comma.
\<close>

fun continuation :: "token_stream \<Rightarrow> token_stream option" where
  "continuation (Punct c sp # rest) = (if c = CHR '','' \<and> rest \<noteq> [] then Some rest else None)"
| "continuation ts = None"

lemma continuation_length: "continuation ts = Some rest \<Longrightarrow> length rest < length ts"
  by (cases ts rule: continuation.cases) (auto split: if_splits)

lemma loop_error:
  "parse_meta_path ts = Err e \<Longrightarrow> parse_nested_meta_loop logic ts st = (Err e, st)"
  by (simp add: parse_nested_meta_loop.simps [of logic ts])

lemma loop_stop:
  "parse_meta_path ts = Ok (p, rest) \<Longrightarrow> continuation rest = None \<Longrightarrow>
     snd (parse_nested_meta_loop logic ts st) = logic p st"
  by (cases rest rule: continuation.cases)
    (auto simp: parse_nested_meta_loop.simps [of logic ts] Let_def split: if_splits)

lemma loop_continue:
  "parse_meta_path ts = Ok (p, rest) \<Longrightarrow> continuation rest = Some rest' \<Longrightarrow>
     parse_nested_meta_loop logic ts st = parse_nested_meta_loop logic rest' (logic p st)"
  by (cases rest rule: continuation.cases)
    (auto simp: parse_nested_meta_loop.simps [of logic ts] Let_def split: if_splits)

lemma loop_result_stop:
  "parse_meta_path ts = Ok (p, rest) \<Longrightarrow> continuation rest = None \<Longrightarrow>
     fst (parse_nested_meta_loop logic ts st) = fst (parse_nested_meta_loop logic' ts st')"
  by (cases rest rule: continuation.cases)
    (auto simp: parse_nested_meta_loop.simps [of _ ts] Let_def split: if_splits)

text \<open>
  A case analysis of one turn, for proofs by induction on the length of the
  input.
\<close>

lemma loop_cases [case_names error stop continue]:
  assumes "\<And>e. parse_meta_path ts = Err e \<Longrightarrow> P"
    and "\<And>p rest. parse_meta_path ts = Ok (p, rest) \<Longrightarrow> continuation rest = None \<Longrightarrow> P"
    and "\<And>p rest rest'. parse_meta_path ts = Ok (p, rest) \<Longrightarrow> continuation rest = Some rest' \<Longrightarrow>
           length rest' < length ts \<Longrightarrow> P"
  shows P
proof (cases "parse_meta_path ts")
  case (Inl e)
  then show ?thesis by (rule assms(1))
next
  case (Inr pr)
  obtain p rest where pr: "pr = (p, rest)"
    by (cases pr)
  show ?thesis
  proof (cases "continuation rest")
    case None
    with Inr pr show ?thesis by (intro assms(2)) simp_all
  next
    case (Some rest')
    with Inr pr parse_meta_path_length [of ts p rest] continuation_length [of rest rest']
    show ?thesis by (intro assms(3) [of p rest rest']) simp_all
  qed
qed

lemma loop_collect_acc:
  "snd (parse_nested_meta_loop (\<lambda>p acc. acc @ [p]) ts acc) =
     acc @ snd (parse_nested_meta_loop (\<lambda>p acc. acc @ [p]) ts [])"
proof (induction ts arbitrary: acc rule: length_induct)
  case (1 ts)
  show ?case
  proof (cases ts rule: loop_cases)
    case (error e)
    then show ?thesis by (simp add: loop_error)
  next
    case (stop p rest)
    then show ?thesis by (simp add: loop_stop)
  next
    case (continue p rest rest')
    with 1 have "snd (parse_nested_meta_loop (\<lambda>p acc. acc @ [p]) rest' a) =
        a @ snd (parse_nested_meta_loop (\<lambda>p acc. acc @ [p]) rest' [])" for a
      by blast
    from this [of "acc @ [p]"] this [of "[p]"] continue show ?thesis
      by (simp add: loop_continue)
  qed
qed

lemma loop_fold:
  "snd (parse_nested_meta_loop logic ts st) =
     fold logic (snd (parse_nested_meta_loop (\<lambda>p acc. acc @ [p]) ts [])) st"
proof (induction ts arbitrary: st rule: length_induct)
  case (1 ts)
  show ?case
  proof (cases ts rule: loop_cases)
    case (error e)
    then show ?thesis by (simp add: loop_error)
  next
    case (stop p rest)
    then show ?thesis by (simp add: loop_stop)
  next
    case (continue p rest rest')
    with 1 have "snd (parse_nested_meta_loop logic rest' (logic p st)) =
        fold logic (snd (parse_nested_meta_loop (\<lambda>p acc. acc @ [p]) rest' [])) (logic p st)"
      by blast
    with continue loop_collect_acc [of rest' "[p]"] show ?thesis
      by (simp add: loop_continue)
  qed
qed

lemma loop_result_independent:
  "fst (parse_nested_meta_loop logic ts st) = fst (parse_nested_meta_loop logic' ts st')"
proof (induction ts arbitrary: st st' rule: length_induct)
  case (1 ts)
  show ?case
  proof (cases ts rule: loop_cases)
    case (error e)
    then show ?thesis by (simp add: loop_error)
  next
    case (stop p rest)
    then show ?thesis by (rule loop_result_stop)
  next
    case (continue p rest rest')
    with 1 show ?thesis
      by (simp add: loop_continue)
  qed
qed

text \<open>
  The state after \<^verbatim>\<open>parse_nested_meta\<close> is the closure folded over the
  paths that were reached, whether the parse succeeded or not; and whether
  it succeeded does not depend on the closure.
\<close>

lemma parse_nested_meta_fold:
  "snd (parse_nested_meta logic ts st) = fold logic (nested_paths ts) st"
  using loop_fold [of logic ts st] by (simp add: parse_nested_meta_def nested_paths_def)

text \<open>
  Whether \<^verbatim>\<open>parse_nested_meta\<close> succeeds is a matter of the tokens
  alone: it depends neither on the closure nor on the state.
\<close>

lemma parse_nested_meta_result_independent:
  "fst (parse_nested_meta logic ts st) = fst (parse_nested_meta logic' ts st')"
  using loop_result_independent [of logic ts st logic' st'] by (simp add: parse_nested_meta_def)

section \<open>Lists of identifiers\<close>

text \<open>
  An identifier followed by the end of the input, by a comma or by anything
  else is parsed as the path of that identifier; a list of identifiers
  separated by commas is parsed to its end, and the closure sees every one.
\<close>

fun ident_list :: "string list \<Rightarrow> token_stream" where
  "ident_list [] = []"
| "ident_list [i] = [Ident i]"
| "ident_list (i # j # js) = Ident i # Punct CHR '','' Alone # ident_list (j # js)"

lemma ident_list_eq_Nil [simp]: "ident_list xs = [] \<longleftrightarrow> xs = []"
  by (cases xs rule: ident_list.cases) simp_all

lemma parse_meta_path_Ident:
  "peek_path_sep rest = None \<Longrightarrow> parse_meta_path (Ident i # rest) = Ok (path_of_ident i, rest)"
  by (simp add: parse_meta_path_def parse_segments.simps [of _ rest] path_of_ident_def)

lemma peek_path_sep_comma [simp]: "peek_path_sep (Punct CHR '','' sp # rest) = None"
  by (cases "(Punct CHR '','' sp # rest)" rule: peek_path_sep.cases) simp_all

lemma peek_path_sep_Group [simp]: "peek_path_sep (Group d ts # rest) = None"
  by simp

lemma nested_paths_Nil [simp]: "nested_paths [] = []"
  by (simp add: nested_paths_def parse_nested_meta_def)

lemma nested_paths_single [simp]: "nested_paths [Ident i] = [path_of_ident i]"
  by (simp add: nested_paths_def parse_nested_meta_def loop_stop [OF parse_meta_path_Ident])

lemma nested_paths_comma:
  assumes "rest \<noteq> []"
  shows "nested_paths (Ident i # Punct CHR '','' sp # rest) = path_of_ident i # nested_paths rest"
proof -
  have "parse_meta_path (Ident i # Punct CHR '','' sp # rest) =
      Ok (path_of_ident i, Punct CHR '','' sp # rest)"
    by (simp add: parse_meta_path_Ident)
  moreover from assms have "continuation (Punct CHR '','' sp # rest) = Some rest"
    by simp
  ultimately have "parse_nested_meta_loop (\<lambda>p acc. acc @ [p]) (Ident i # Punct CHR '','' sp # rest) [] =
      parse_nested_meta_loop (\<lambda>p acc. acc @ [p]) rest [path_of_ident i]"
    by (simp add: loop_continue)
  with assms loop_collect_acc [of rest "[path_of_ident i]"] show ?thesis
    by (simp add: nested_paths_def parse_nested_meta_def)
qed

lemma nested_paths_ident_list: "nested_paths (ident_list xs) = map path_of_ident xs"
  by (induction xs rule: ident_list.induct) (simp_all add: nested_paths_comma)

text \<open>
  An entry with arguments, \<^verbatim>\<open>name(...)\<close>, is still called for, but the
  closures of the program do not consume the arguments, so the parse fails
  behind it and nothing that follows is reached.
\<close>

lemma nested_paths_arguments:
  "nested_paths (Ident i # Group d g # rest) = [path_of_ident i]"
proof -
  have "parse_meta_path (Ident i # Group d g # rest) = Ok (path_of_ident i, Group d g # rest)"
    by (simp add: parse_meta_path_Ident)
  then show ?thesis
    by (simp add: nested_paths_def parse_nested_meta_def loop_stop)
qed

lemma nested_paths_not_path:
  "nested_paths (Group d g # rest) = []" "nested_paths (Literal l # rest) = []"
  by (simp_all add: nested_paths_def parse_nested_meta_def loop_error parse_meta_path_def)

section \<open>What the display shows of a pattern\<close>

text \<open>
  The texts of the identifiers and literals of a token tree, and its
  punctuation characters.  The display puts layout (blanks and brackets)
  or punctuation between any two of the texts, so a pattern made of other
  characters occurs in the display exactly when it occurs in one of the
  texts.
\<close>

fun leaf_texts :: "token_tree \<Rightarrow> string list" where
  "leaf_texts (Group d ts) = concat (map leaf_texts ts)"
| "leaf_texts (Ident s) = [s]"
| "leaf_texts (Punct c sp) = []"
| "leaf_texts (Literal s) = [s]"

fun punct_chars :: "token_tree \<Rightarrow> char list" where
  "punct_chars (Group d ts) = concat (map punct_chars ts)"
| "punct_chars (Ident s) = []"
| "punct_chars (Punct c sp) = [c]"
| "punct_chars (Literal s) = []"

definition layout_chars :: "char list" where
  "layout_chars = '' (){}[]''"

text \<open>The characters \<^verbatim>\<open>proc_macro2::Punct::new\<close> accepts.\<close>

definition punctuation :: "char list" where
  "punctuation = [CHR ''~'', CHR ''!'', CHR ''@'', CHR ''#'', CHR ''$'', CHR ''%'', CHR ''^'',
     CHR ''&'', CHR ''*'', CHR ''-'', CHR ''='', CHR ''+'', CHR ''|'', CHR '';'', CHR '':'',
     CHR '','', CHR ''<'', CHR ''.'', CHR ''>'', CHR ''/'', CHR ''?'', CHR 0x27]"

definition wf_tokens :: "token_stream \<Rightarrow> bool" where
  "wf_tokens ts \<longleftrightarrow> set (concat (map punct_chars ts)) \<subseteq> set punctuation"

lemma stream_fmt_True:
  "stream_fmt True ts = (if ts = [] then [] else CHR '' '' # stream_fmt False ts)"
  by (cases ts) simp_all

lemma delim_layout:
  "set (delim_open d) \<subseteq> set layout_chars" "set (delim_close d) \<subseteq> set layout_chars"
  by (cases d; simp add: layout_chars_def)+

lemma sublist_group:
  assumes "pat \<noteq> []" and "set pat \<inter> set layout_chars = {}"
  shows "sublist pat (tree_fmt (Group d ts)) \<longleftrightarrow> sublist pat (stream_fmt False ts)"
proof -
  from assms(2) delim_layout [of d]
  have "set pat \<inter> set (delim_open d) = {}"
    and "set pat \<inter> set ((if d = Brace \<and> ts \<noteq> [] then '' '' else []) @ delim_close d) = {}"
    by (auto simp: layout_chars_def)
  with assms(1) have "sublist pat (delim_open d @ stream_fmt False ts @
      ((if d = Brace \<and> ts \<noteq> [] then '' '' else []) @ delim_close d)) \<longleftrightarrow>
      sublist pat (stream_fmt False ts)"
    by (intro sublist_between)
  then show ?thesis
    by simp
qed

lemma sublist_tree_stream:
  assumes "pat \<noteq> []" and "CHR '' '' \<notin> set pat" and "set pat \<inter> set (punct_chars t) = {}"
  shows "sublist pat (tree_fmt t @ stream_fmt (\<not> is_joint t) ts) \<longleftrightarrow>
     sublist pat (tree_fmt t) \<or> sublist pat (stream_fmt (\<not> is_joint t) ts)"
proof (cases "is_joint t")
  case True
  then obtain c where "t = Punct c Joint"
    by (cases t rule: is_joint.cases) auto
  with assms show ?thesis
    by (auto simp: sublist_Cons_notin sublist_Cons_right prefix_Cons_notin)
next
  case False
  with assms show ?thesis
    by (cases ts) (simp_all add: sublist_sep sublist_Cons_notin)
qed

lemma sublist_fmt:
  "pat \<noteq> [] \<Longrightarrow> set pat \<inter> (set layout_chars \<union> set (punct_chars t)) = {} \<Longrightarrow>
     sublist pat (tree_fmt t) \<longleftrightarrow> (\<exists>w \<in> set (leaf_texts t). sublist pat w)"
  "pat \<noteq> [] \<Longrightarrow> set pat \<inter> (set layout_chars \<union> set (concat (map punct_chars ts))) = {} \<Longrightarrow>
     sublist pat (stream_fmt space ts) \<longleftrightarrow> (\<exists>w \<in> set (concat (map leaf_texts ts)). sublist pat w)"
proof (induction t and space ts rule: tree_fmt_stream_fmt.induct)
  case (1 d ts)
  from "1.prems" have "sublist pat (tree_fmt (Group d ts)) \<longleftrightarrow> sublist pat (stream_fmt False ts)"
    by (intro sublist_group) auto
  moreover from "1.prems"(2)
  have "set pat \<inter> (set layout_chars \<union> set (concat (map punct_chars ts))) = {}"
    by simp
  ultimately show ?case
    using "1.IH" "1.prems"(1) by simp
next
  case (6 space t ts)
  from "6.prems"(2) have sp: "CHR '' '' \<notin> set pat"
    and p1: "set pat \<inter> (set layout_chars \<union> set (punct_chars t)) = {}"
    and p2: "set pat \<inter> (set layout_chars \<union> set (concat (map punct_chars ts))) = {}"
    by (auto simp: layout_chars_def)
  from "6.prems"(1) p1
  have t: "sublist pat (tree_fmt t) \<longleftrightarrow> (\<exists>w \<in> set (leaf_texts t). sublist pat w)"
    by (rule "6.IH"(1))
  from "6.prems"(1) p2
  have ts: "sublist pat (stream_fmt (\<not> is_joint t) ts) \<longleftrightarrow>
      (\<exists>w \<in> set (concat (map leaf_texts ts)). sublist pat w)"
    by (rule "6.IH"(2))
  have "sublist pat (stream_fmt space (t # ts)) \<longleftrightarrow>
      sublist pat (tree_fmt t @ stream_fmt (\<not> is_joint t) ts)"
    using sp "6.prems"(1) by (simp add: sublist_Cons_notin)
  also have "\<dots> \<longleftrightarrow> sublist pat (tree_fmt t) \<or> sublist pat (stream_fmt (\<not> is_joint t) ts)"
    using "6.prems"(1) sp p1 by (intro sublist_tree_stream) auto
  finally show ?case
    using t ts by auto
qed (simp_all add: sublist_Cons_right prefix_Cons_notin)

lemma contains_to_string:
  assumes "wf_tokens ts" and "pat \<noteq> []"
    and "set pat \<inter> (set layout_chars \<union> set punctuation) = {}"
  shows "contains (to_string ts) pat \<longleftrightarrow> (\<exists>w \<in> set (concat (map leaf_texts ts)). contains w pat)"
proof -
  from assms(1,3) have "set pat \<inter> (set layout_chars \<union> set (concat (map punct_chars ts))) = {}"
    unfolding wf_tokens_def by blast
  with assms(2) show ?thesis
    unfolding contains_def to_string_def by (rule sublist_fmt(2))
qed

lemmas [rust_eval] = layout_chars_def punctuation_def wf_tokens_def

end
