(* ===== verification/Syntax.thy ===== *)
theory Syntax
  imports Tokens
begin

text \<open>
  The part of \<^verbatim>\<open>syn\<close>'s syntax tree that \<^verbatim>\<open>src/main.rs\<close> reads: the
  visibility of an item, the meta item of an attribute, and the items of
  a file.  An item is a struct, an enum, a module (whose content is absent
  for \<^verbatim>\<open>mod m;\<close> and a list of items for \<^verbatim>\<open>mod m { ... }\<close>) or
  anything else; of a struct and an enum only the attributes, the
  visibility and the name are kept, since the program reads nothing else.
\<close>

section \<open>Attributes\<close>

datatype visibility = Public | Restricted | Inherited

datatype meta =
    MetaPath syn_path
  | MetaList syn_path token_stream
  | MetaNameValue syn_path

record attribute =
  meta :: meta

section \<open>Items and files\<close>

datatype item =
    ItemStruct "attribute list" visibility string
  | ItemEnum "attribute list" visibility string
  | ItemMod "attribute list" visibility string "item list option"
  | ItemOther

record syn_file =
  shebang :: "string option"
  attrs :: "attribute list"
  items :: "item list"

text \<open>The file the traversal builds for the content of a module.\<close>

definition nested_file :: "item list \<Rightarrow> syn_file" where
  "nested_file its = \<lparr>shebang = None, attrs = [], items = its\<rparr>"

lemma items_nested_file [simp]: "items (nested_file its) = its"
  by (simp add: nested_file_def)

text \<open>
  Attributes as they are written: \<^verbatim>\<open>#[name(tokens)]\<close> and \<^verbatim>\<open>#[name]\<close>
  for a plain name.
\<close>

definition list_attr :: "string \<Rightarrow> token_stream \<Rightarrow> attribute" where
  "list_attr nm ts = \<lparr>meta = MetaList (path_of_ident nm) ts\<rparr>"

definition word_attr :: "string \<Rightarrow> attribute" where
  "word_attr nm = \<lparr>meta = MetaPath (path_of_ident nm)\<rparr>"

text \<open>
  The attributes the program looks for, as they are usually written:
  \<^verbatim>\<open>#[derive(A, B)]\<close>, \<^verbatim>\<open>#[reflect(A, B)]\<close> and \<^verbatim>\<open>#[cfg(test)]\<close>.
\<close>

definition derive_attr :: "string list \<Rightarrow> attribute" where
  "derive_attr ds = list_attr ''derive'' (ident_list ds)"

definition reflect_attr :: "string list \<Rightarrow> attribute" where
  "reflect_attr rs = list_attr ''reflect'' (ident_list rs)"

definition cfg_test_attr :: attribute where
  "cfg_test_attr = list_attr ''cfg'' [Ident ''test'']"

lemmas [rust_eval] =
  nested_file_def list_attr_def word_attr_def derive_attr_def reflect_attr_def cfg_test_attr_def

end
