(* ===== verification/Detection.thy ===== *)
theory Detection
  imports Syntax
begin

text \<open>
  The three predicates on items and their attributes
  (\<^verbatim>\<open>src/main.rs\<close>, lines 130 to 187): \<open>has_cfg_test\<close>, \<open>is_public\<close>
  and \<open>derives_reflect_and_component_but_no_reflect_component\<close>.  The
  last one keeps three flags that the closures handed to
  \<^verbatim>\<open>parse_nested_meta\<close> set while the attributes are scanned in order;
  the flags are the record \<open>detect_flags\<close>, a closure is a function on
  it, and the loop over the attributes is a \<^const>\<open>fold\<close>.

  The lemmas characterise the outcome by what the attributes declare,
  independent of the order of scanning, and say what the test-guard check
  sees of a token stream.
\<close>

section \<open>Test guard and visibility\<close>

definition has_cfg_test :: "attribute list \<Rightarrow> bool" where
  "has_cfg_test ats =
     list_ex (\<lambda>attr.
        case meta attr of
          MetaList p tokens \<Rightarrow> is_ident p ''cfg'' \<and> contains (to_string tokens) ''test''
        | _ \<Rightarrow> False) ats"

fun is_public :: "item \<Rightarrow> bool" where
  "is_public (ItemStruct ats vis ident) = (vis = Public)"
| "is_public (ItemEnum ats vis ident) = (vis = Public)"
| "is_public (ItemMod ats vis ident content) = (vis = Public)"
| "is_public ItemOther = False"

section \<open>The detection predicate\<close>

record detect_flags =
  derives_reflect :: bool
  derives_component :: bool
  has_reflect_component_attr :: bool

definition no_flags :: detect_flags where
  "no_flags = \<lparr>derives_reflect = False, derives_component = False,
     has_reflect_component_attr = False\<rparr>"

text \<open>The closure for \<^verbatim>\<open>#[derive(...)]\<close> and the one for \<^verbatim>\<open>#[reflect(...)]\<close>.\<close>

definition derive_nested :: "syn_path \<Rightarrow> detect_flags \<Rightarrow> detect_flags" where
  "derive_nested p st =
     (if is_ident p ''Reflect'' then st\<lparr>derives_reflect := True\<rparr>
      else if is_ident p ''Component'' then st\<lparr>derives_component := True\<rparr>
      else st)"

definition reflect_nested :: "syn_path \<Rightarrow> detect_flags \<Rightarrow> detect_flags" where
  "reflect_nested p st =
     (if is_ident p ''Component'' then st\<lparr>has_reflect_component_attr := True\<rparr> else st)"

text \<open>
  The body of the loop over the attributes.  The result of
  \<^verbatim>\<open>parse_nested_meta\<close> is dropped (\<^verbatim>\<open>.ok()\<close>); the flags it set are kept.
\<close>

definition scan_attr :: "attribute \<Rightarrow> detect_flags \<Rightarrow> detect_flags" where
  "scan_attr attr st =
     (case meta attr of
        MetaList p tokens \<Rightarrow>
          if is_ident p ''derive'' then snd (parse_nested_meta derive_nested tokens st)
          else if is_ident p ''reflect'' then snd (parse_nested_meta reflect_nested tokens st)
          else st
      | _ \<Rightarrow> st)"

definition derives_reflect_and_component_but_no_reflect_component :: "attribute list \<Rightarrow> bool" where
  "derives_reflect_and_component_but_no_reflect_component ats =
     (let st = fold scan_attr ats no_flags
      in derives_reflect st \<and> derives_component st \<and> \<not> has_reflect_component_attr st)"

section \<open>What the attributes declare\<close>

text \<open>
  The paths that \<^verbatim>\<open>parse_nested_meta\<close> reaches inside the attributes
  named \<open>nm\<close>, and whether one of them is the identifier \<open>ident\<close>.
\<close>

definition visited :: "string \<Rightarrow> attribute list \<Rightarrow> syn_path list" where
  "visited nm ats =
     concat (map (\<lambda>attr.
        case meta attr of
          MetaList p tokens \<Rightarrow> if is_ident p nm then nested_paths tokens else []
        | _ \<Rightarrow> []) ats)"

definition declares :: "string \<Rightarrow> string \<Rightarrow> attribute list \<Rightarrow> bool" where
  "declares nm ident ats \<longleftrightarrow> (\<exists>p \<in> set (visited nm ats). is_ident p ident)"

lemmas [rust_eval] =
  has_cfg_test_def no_flags_def derive_nested_def reflect_nested_def scan_attr_def
  derives_reflect_and_component_but_no_reflect_component_def visited_def declares_def

section \<open>The flags after a scan\<close>

lemma is_ident_path_of_ident [simp]: "is_ident (path_of_ident i) j \<longleftrightarrow> i = j"
  by (simp add: is_ident_def path_of_ident_def)

lemma is_ident_unique: "is_ident p i \<Longrightarrow> is_ident p j \<Longrightarrow> i = j"
  by (simp add: is_ident_def)

lemma fold_derive_nested:
  "derives_reflect (fold derive_nested ps st) \<longleftrightarrow>
     derives_reflect st \<or> (\<exists>p \<in> set ps. is_ident p ''Reflect'')"
  "derives_component (fold derive_nested ps st) \<longleftrightarrow>
     derives_component st \<or> (\<exists>p \<in> set ps. is_ident p ''Component'')"
  "has_reflect_component_attr (fold derive_nested ps st) = has_reflect_component_attr st"
  by (induction ps arbitrary: st; auto simp: derive_nested_def dest: is_ident_unique)+

lemma fold_reflect_nested:
  "derives_reflect (fold reflect_nested ps st) = derives_reflect st"
  "derives_component (fold reflect_nested ps st) = derives_component st"
  "has_reflect_component_attr (fold reflect_nested ps st) \<longleftrightarrow>
     has_reflect_component_attr st \<or> (\<exists>p \<in> set ps. is_ident p ''Component'')"
  by (induction ps arbitrary: st; auto simp: reflect_nested_def)+

lemma visited_Nil [simp]: "visited nm [] = []"
  by (simp add: visited_def)

lemma visited_Cons:
  "visited nm (attr # ats) =
     (case meta attr of
        MetaList p tokens \<Rightarrow> if is_ident p nm then nested_paths tokens else []
      | _ \<Rightarrow> []) @ visited nm ats"
  by (simp add: visited_def)

lemma visited_append: "visited nm (ats @ bts) = visited nm ats @ visited nm bts"
  by (simp add: visited_def)

lemma declares_Cons:
  "declares nm ident (attr # ats) \<longleftrightarrow> declares nm ident [attr] \<or> declares nm ident ats"
  by (auto simp: declares_def visited_Cons)

lemma declares_Nil [simp]: "\<not> declares nm ident []"
  by (simp add: declares_def)

lemma scan_attr_flags:
  "derives_reflect (scan_attr attr st) \<longleftrightarrow> derives_reflect st \<or> declares ''derive'' ''Reflect'' [attr]"
  "derives_component (scan_attr attr st) \<longleftrightarrow>
     derives_component st \<or> declares ''derive'' ''Component'' [attr]"
  "has_reflect_component_attr (scan_attr attr st) \<longleftrightarrow>
     has_reflect_component_attr st \<or> declares ''reflect'' ''Component'' [attr]"
  by (auto simp: scan_attr_def declares_def visited_Cons parse_nested_meta_fold fold_derive_nested
      fold_reflect_nested is_ident_def split: meta.splits)

lemma fold_scan_attr_flags:
  "derives_reflect (fold scan_attr ats st) \<longleftrightarrow> derives_reflect st \<or> declares ''derive'' ''Reflect'' ats"
  "derives_component (fold scan_attr ats st) \<longleftrightarrow>
     derives_component st \<or> declares ''derive'' ''Component'' ats"
  "has_reflect_component_attr (fold scan_attr ats st) \<longleftrightarrow>
     has_reflect_component_attr st \<or> declares ''reflect'' ''Component'' ats"
proof (induction ats arbitrary: st)
  case Nil
  {
    case 1 show ?case by simp
  next
    case 2 show ?case by simp
  next
    case 3 show ?case by simp
  }
next
  case (Cons attr ats)
  {
    case 1 show ?case
      using Cons(1) [of "scan_attr attr st"] declares_Cons [of _ _ attr ats]
      by (auto simp: scan_attr_flags)
  next
    case 2 show ?case
      using Cons(2) [of "scan_attr attr st"] declares_Cons [of _ _ attr ats]
      by (auto simp: scan_attr_flags)
  next
    case 3 show ?case
      using Cons(3) [of "scan_attr attr st"] declares_Cons [of _ _ attr ats]
      by (auto simp: scan_attr_flags)
  }
qed

lemma detection_iff:
  "derives_reflect_and_component_but_no_reflect_component ats \<longleftrightarrow>
     declares ''derive'' ''Reflect'' ats \<and> declares ''derive'' ''Component'' ats \<and>
     \<not> declares ''reflect'' ''Component'' ats"
  by (simp add: derives_reflect_and_component_but_no_reflect_component_def Let_def
      fold_scan_attr_flags no_flags_def del: fold_simps)

text \<open>
  C6.  The truth table of the detection predicate.  Of the eight
  combinations of the three facts "a \<^verbatim>\<open>derive\<close> attribute declares
  \<^verbatim>\<open>Reflect\<close>", "a \<^verbatim>\<open>derive\<close> attribute declares \<^verbatim>\<open>Component\<close>"
  and "a \<^verbatim>\<open>reflect\<close> attribute declares \<^verbatim>\<open>Component\<close>" exactly one
  makes the predicate true: yes, yes, no.  An attribute declares the
  identifiers that \<^verbatim>\<open>parse_nested_meta\<close> reaches in its arguments.
\<close>

theorem detection_truth_table:
  "derives_reflect_and_component_but_no_reflect_component ats =
     (case (declares ''derive'' ''Reflect'' ats, declares ''derive'' ''Component'' ats,
            declares ''reflect'' ''Component'' ats) of
        (True, True, False) \<Rightarrow> True
      | _ \<Rightarrow> False)"
  by (simp add: detection_iff split: bool.splits)

section \<open>Order and repetition of attributes\<close>

lemma declares_set:
  "declares nm ident ats \<longleftrightarrow> (\<exists>attr \<in> set ats. declares nm ident [attr])"
proof (induction ats)
  case Nil
  show ?case by simp
next
  case (Cons attr ats)
  with declares_Cons [of nm ident attr ats] show ?case
    by simp
qed

text \<open>
  C35.  The detection predicate depends on the set of attributes only: the
  order in which the attributes are written and their repetition do not
  change it, although the flags are set while the attributes are scanned
  in order.
\<close>

theorem detection_order_independent:
  assumes "set ats = set bts"
  shows "derives_reflect_and_component_but_no_reflect_component ats =
         derives_reflect_and_component_but_no_reflect_component bts"
  using assms by (simp add: detection_iff declares_set [of _ _ ats] declares_set [of _ _ bts])

theorem detection_order_independent_witness:
  "set [derive_attr [''Reflect''], derive_attr [''Component'']] =
   set [derive_attr [''Component''], derive_attr [''Reflect''], derive_attr [''Component'']] \<and>
   derives_reflect_and_component_but_no_reflect_component
     [derive_attr [''Reflect''], derive_attr [''Component'']] =
   derives_reflect_and_component_but_no_reflect_component
     [derive_attr [''Component''], derive_attr [''Reflect''], derive_attr [''Component'']]"
proof -
  have h: "set [derive_attr [''Reflect''], derive_attr [''Component'']] =
      set [derive_attr [''Component''], derive_attr [''Reflect''], derive_attr [''Component'']]"
    by auto
  from h detection_order_independent [OF h] show ?thesis ..
qed

section \<open>Attributes as they are written\<close>

lemma declares_list_attr:
  "declares nm ident [list_attr nm' ts] \<longleftrightarrow>
     nm = nm' \<and> (\<exists>p \<in> set (nested_paths ts). is_ident p ident)"
  by (auto simp: declares_def visited_Cons list_attr_def)

lemma declares_word_attr [simp]: "\<not> declares nm ident [word_attr nm']"
  by (simp add: declares_def visited_Cons word_attr_def)

lemma declares_derive_attr [simp]:
  "declares nm ident [derive_attr ds] \<longleftrightarrow> nm = ''derive'' \<and> ident \<in> set ds"
  by (auto simp: declares_list_attr derive_attr_def nested_paths_ident_list)

lemma declares_reflect_attr [simp]:
  "declares nm ident [reflect_attr rs] \<longleftrightarrow> nm = ''reflect'' \<and> ident \<in> set rs"
  by (auto simp: declares_list_attr reflect_attr_def nested_paths_ident_list)

lemma declares_cfg_test_attr [simp]:
  "declares nm ident [cfg_test_attr] \<longleftrightarrow> nm = ''cfg'' \<and> ident = ''test''"
  by (auto simp: declares_list_attr cfg_test_attr_def)

lemmas detection_eval = detection_iff declares_Cons [of _ _ _ "_ # _"]

text \<open>
  For a type that carries one \<^verbatim>\<open>derive\<close> attribute and one
  \<^verbatim>\<open>reflect\<close> attribute, each a plain list of identifiers, the detection
  predicate holds exactly when the derive list names \<^verbatim>\<open>Reflect\<close> and
  \<^verbatim>\<open>Component\<close> and the reflect list does not name \<^verbatim>\<open>Component\<close>.
\<close>

theorem detection_of_lists:
  "derives_reflect_and_component_but_no_reflect_component [derive_attr ds, reflect_attr rs] \<longleftrightarrow>
     ''Reflect'' \<in> set ds \<and> ''Component'' \<in> set ds \<and> ''Component'' \<notin> set rs"
  by (simp add: detection_eval)

text \<open>
  C36.  An entry with arguments in a \<^verbatim>\<open>reflect\<close> attribute ends the scan
  of that attribute: a \<^verbatim>\<open>Component\<close> written behind it is not seen,
  and the type is reported although it carries the registration.  Only an
  entry that is itself \<^verbatim>\<open>Component\<close> is still counted.
\<close>

theorem arguments_hide_registration:
  "derives_reflect_and_component_but_no_reflect_component
     [derive_attr [''Reflect'', ''Component''],
      list_attr ''reflect'' (Ident h # Group d g # Punct CHR '','' sp # ident_list [''Component''])]
   \<longleftrightarrow> h \<noteq> ''Component''"
  by (auto simp: detection_eval declares_list_attr nested_paths_arguments)

section \<open>What the test guard sees\<close>

definition guard_words :: "attribute \<Rightarrow> string list" where
  "guard_words attr =
     (case meta attr of
        MetaList p tokens \<Rightarrow> if is_ident p ''cfg'' then concat (map leaf_texts tokens) else []
      | _ \<Rightarrow> [])"

definition wf_attribute :: "attribute \<Rightarrow> bool" where
  "wf_attribute attr = (case meta attr of MetaList p tokens \<Rightarrow> wf_tokens tokens | _ \<Rightarrow> True)"

lemma has_cfg_test_Nil [simp]: "\<not> has_cfg_test []"
  by (simp add: has_cfg_test_def)

lemma has_cfg_test_Cons:
  "has_cfg_test (attr # ats) \<longleftrightarrow> has_cfg_test [attr] \<or> has_cfg_test ats"
  by (simp add: has_cfg_test_def)

lemma has_cfg_test_append:
  "has_cfg_test (ats @ bts) \<longleftrightarrow> has_cfg_test ats \<or> has_cfg_test bts"
  by (simp add: has_cfg_test_def)

lemma has_cfg_test_list_attr:
  "has_cfg_test [list_attr nm ts] \<longleftrightarrow> nm = ''cfg'' \<and> contains (to_string ts) ''test''"
  by (auto simp: has_cfg_test_def list_attr_def)

lemma has_cfg_test_fixtures [simp]:
  "has_cfg_test [cfg_test_attr]" "\<not> has_cfg_test [derive_attr ds]"
  "\<not> has_cfg_test [reflect_attr rs]" "\<not> has_cfg_test [word_attr nm]"
  by (simp_all add: has_cfg_test_list_attr cfg_test_attr_def derive_attr_def reflect_attr_def
      rust_eval)

lemma test_not_layout: "set ''test'' \<inter> (set layout_chars \<union> set punctuation) = {}"
  by (simp add: layout_chars_def punctuation_def)

lemma has_cfg_test_single:
  assumes "wf_attribute attr"
  shows "has_cfg_test [attr] \<longleftrightarrow> (\<exists>w \<in> set (guard_words attr). contains w ''test'')"
proof (cases "meta attr")
  case (MetaList p tokens)
  with assms have "wf_tokens tokens"
    by (simp add: wf_attribute_def)
  then have "contains (to_string tokens) ''test'' \<longleftrightarrow>
      (\<exists>w \<in> set (concat (map leaf_texts tokens)). contains w ''test'')"
    using contains_to_string [OF _ _ test_not_layout] by simp
  with MetaList show ?thesis
    by (auto simp: has_cfg_test_def guard_words_def)
qed (simp_all add: has_cfg_test_def guard_words_def)

text \<open>
  C37.  The test guard is a search for the letters \<^verbatim>\<open>test\<close> in the text
  of the arguments: for attributes whose punctuation is Rust's, it fires
  exactly when an identifier or a literal inside some \<^verbatim>\<open>cfg\<close> attribute
  contains \<^verbatim>\<open>test\<close>, wherever it stands and whatever surrounds it.
\<close>

theorem has_cfg_test_words:
  assumes "list_all wf_attribute ats"
  shows "has_cfg_test ats \<longleftrightarrow> (\<exists>w \<in> set (concat (map guard_words ats)). contains w ''test'')"
  using assms
proof (induction ats)
  case Nil
  then show ?case by simp
next
  case (Cons attr ats)
  then show ?case
    using has_cfg_test_single [of attr] has_cfg_test_Cons [of attr ats] by auto
qed

lemmas [rust_eval] = guard_words_def wf_attribute_def

text \<open>The witness is \<^verbatim>\<open>#[cfg(not(test))]\<close>: the guard fires on code that is not test code.\<close>

theorem has_cfg_test_words_witness:
  "list_all wf_attribute [list_attr ''cfg'' [Ident ''not'', Group Parenthesis [Ident ''test'']]] \<and>
   has_cfg_test [list_attr ''cfg'' [Ident ''not'', Group Parenthesis [Ident ''test'']]]"
proof -
  let ?ats = "[list_attr ''cfg'' [Ident ''not'', Group Parenthesis [Ident ''test'']]]"
  have h: "list_all wf_attribute ?ats"
    by (simp add: rust_eval)
  have w: "\<exists>w \<in> set (concat (map guard_words ?ats)). contains w ''test''"
    by (simp add: rust_eval)
  from h iffD2 [OF has_cfg_test_words [OF h] w] show ?thesis ..
qed

section \<open>Attributes the predicates misread\<close>

text \<open>
  The test guard is a search for the letters \<^verbatim>\<open>test\<close> in the tokens of
  a \<^verbatim>\<open>cfg\<close> attribute: \<^verbatim>\<open>#[cfg(not(test))]\<close>,
  \<^verbatim>\<open>#[cfg(feature = "testing")]\<close> and \<^verbatim>\<open>#[cfg(contest)]\<close> count as
  guards.
\<close>

lemma test_guard_false_positives:
  "has_cfg_test [list_attr ''cfg'' [Ident ''not'', Group Parenthesis [Ident ''test'']]]"
  "has_cfg_test
     [list_attr ''cfg'' [Ident ''feature'', Punct CHR ''='' Alone, Literal ''\"testing\"'']]"
  "has_cfg_test [list_attr ''cfg'' [Ident ''contest'']]"
  by (simp_all add: rust_eval)

text \<open>
  A derive that names the trait by a path of more than one segment,
  as in \<^verbatim>\<open>#[derive(bevy::Reflect, Component)]\<close>, is not seen, whatever
  the first segment is: \<^verbatim>\<open>is_ident\<close> holds of single identifiers only.
\<close>

theorem qualified_derive_not_detected:
  "\<not> derives_reflect_and_component_but_no_reflect_component
       [list_attr ''derive''
          [Ident crate_name, Punct CHR '':'' Joint, Punct CHR '':'' Alone, Ident ''Reflect'',
           Punct CHR '','' Alone, Ident ''Component'']]"
  by (simp add: detection_iff declares_def rust_eval)

end
