(* ===== verification/Walker.thy ===== *)
theory Walker
  imports Detection
begin

text \<open>
  The traversal \<^verbatim>\<open>collect_reflect_types\<close> (\<^verbatim>\<open>src/main.rs\<close>, lines 189 to
  237).  The vector of findings that the program passes by mutable
  reference is an argument and the result; the \<^verbatim>\<open>for\<close> loop over the
  items of a file is the function \<open>collect_items\<close>, and the call of the loop
  body for the content of a module is the recursive call of
  \<open>collect_reflect_types\<close> on the file built from that content, so the two
  functions are mutually recursive as in the source.

  The specification \<open>findings\<close> is the pure function the design of the tool
  describes: it returns the findings of a list of items, descends into
  every module that is not test-guarded, and hands down the conjunction of
  the visibilities on the way.  The lemmas show that the traversal appends
  exactly these findings to its accumulator, and what follows from that.
\<close>

section \<open>The traversal\<close>

function (sequential)
  collect_reflect_types :: "syn_file \<Rightarrow> string \<Rightarrow> string list \<Rightarrow> bool \<Rightarrow> bool \<Rightarrow> string list"
  and collect_items :: "item list \<Rightarrow> string \<Rightarrow> string list \<Rightarrow> bool \<Rightarrow> bool \<Rightarrow> string list"
where
  "collect_reflect_types file module_path reflect_types public_only parent_is_public =
     collect_items (items file) module_path reflect_types public_only parent_is_public"
| "collect_items [] module_path reflect_types public_only parent_is_public = reflect_types"
| "collect_items (item # rest) module_path reflect_types public_only parent_is_public =
     (let item_is_public = is_public item \<and> parent_is_public
      in case item of
           ItemStruct ats vis ident \<Rightarrow>
             if derives_reflect_and_component_but_no_reflect_component ats then
               if public_only \<and> \<not> item_is_public
               then collect_items rest module_path reflect_types public_only parent_is_public
               else collect_items rest module_path
                      (reflect_types @ [format_qualified module_path ident])
                      public_only parent_is_public
             else collect_items rest module_path reflect_types public_only parent_is_public
         | ItemEnum ats vis ident \<Rightarrow>
             if derives_reflect_and_component_but_no_reflect_component ats then
               if public_only \<and> \<not> item_is_public
               then collect_items rest module_path reflect_types public_only parent_is_public
               else collect_items rest module_path
                      (reflect_types @ [format_qualified module_path ident])
                      public_only parent_is_public
             else collect_items rest module_path reflect_types public_only parent_is_public
         | ItemMod ats vis ident content \<Rightarrow>
             if \<not> has_cfg_test ats then
               if public_only \<and> \<not> item_is_public
               then collect_items rest module_path reflect_types public_only parent_is_public
               else (case content of
                       Some its \<Rightarrow>
                         collect_items rest module_path
                           (collect_reflect_types (nested_file its)
                              (format_qualified module_path ident) reflect_types
                              public_only item_is_public)
                           public_only parent_is_public
                     | None \<Rightarrow>
                         collect_items rest module_path reflect_types public_only parent_is_public)
             else collect_items rest module_path reflect_types public_only parent_is_public
         | ItemOther \<Rightarrow>
             collect_items rest module_path reflect_types public_only parent_is_public)"
  by pat_completeness auto
termination
  by (relation "measure (\<lambda>x. case x of
          Inl (file, _) \<Rightarrow> Suc (size_list size (items file))
        | Inr (its, _) \<Rightarrow> size_list size its)")
    auto

section \<open>The specification\<close>

text \<open>
  A type is reported when the detection predicate holds and, under the
  public-only policy, the type and every enclosing module are public.
\<close>

definition reportable :: "bool \<Rightarrow> bool \<Rightarrow> attribute list \<Rightarrow> visibility \<Rightarrow> bool" where
  "reportable public_only parent_is_public ats vis \<longleftrightarrow>
     derives_reflect_and_component_but_no_reflect_component ats \<and>
     (if public_only then vis = Public \<and> parent_is_public else True)"

fun item_findings :: "bool \<Rightarrow> bool \<Rightarrow> string \<Rightarrow> item \<Rightarrow> string list" where
  "item_findings po pp mp (ItemStruct ats vis ident) =
     (if reportable po pp ats vis then [format_qualified mp ident] else [])"
| "item_findings po pp mp (ItemEnum ats vis ident) =
     (if reportable po pp ats vis then [format_qualified mp ident] else [])"
| "item_findings po pp mp (ItemMod ats vis ident None) = []"
| "item_findings po pp mp (ItemMod ats vis ident (Some its)) =
     (if has_cfg_test ats then []
      else concat (map (item_findings po (vis = Public \<and> pp) (format_qualified mp ident)) its))"
| "item_findings po pp mp ItemOther = []"

definition findings :: "bool \<Rightarrow> bool \<Rightarrow> string \<Rightarrow> item list \<Rightarrow> string list" where
  "findings po pp mp its = concat (map (item_findings po pp mp) its)"

section \<open>One equation per kind of item\<close>

declare collect_items.simps(2) [simp del]
declare collect_reflect_types.simps [simp del]

text \<open>
  The traversal enters a module when it is not test-guarded and, under the
  public-only policy, the module and everything around it are public.
\<close>

definition descends :: "bool \<Rightarrow> bool \<Rightarrow> attribute list \<Rightarrow> visibility \<Rightarrow> bool" where
  "descends po pp ats vis \<longleftrightarrow>
     \<not> has_cfg_test ats \<and> (if po then vis = Public \<and> pp else True)"

lemma collect_items_struct [walker_simps]:
  "collect_items (ItemStruct ats vis ident # rest) mp acc po pp =
     collect_items rest mp
       (if reportable po pp ats vis then acc @ [format_qualified mp ident] else acc) po pp"
  by (auto simp: collect_items.simps(2) reportable_def)

lemma collect_items_enum [walker_simps]:
  "collect_items (ItemEnum ats vis ident # rest) mp acc po pp =
     collect_items rest mp
       (if reportable po pp ats vis then acc @ [format_qualified mp ident] else acc) po pp"
  by (auto simp: collect_items.simps(2) reportable_def)

lemma collect_items_mod_Some [walker_simps]:
  "collect_items (ItemMod ats vis ident (Some its) # rest) mp acc po pp =
     collect_items rest mp
       (if descends po pp ats vis
        then collect_reflect_types (nested_file its) (format_qualified mp ident) acc po
               (vis = Public \<and> pp)
        else acc) po pp"
  by (auto simp: collect_items.simps(2) descends_def)

lemma collect_items_mod_None [walker_simps]:
  "collect_items (ItemMod ats vis ident None # rest) mp acc po pp =
     collect_items rest mp acc po pp"
  by (simp add: collect_items.simps(2) Let_def)

lemma collect_items_other [walker_simps]:
  "collect_items (ItemOther # rest) mp acc po pp = collect_items rest mp acc po pp"
  by (simp add: collect_items.simps(2))

lemma findings_Nil [simp]: "findings po pp mp [] = []"
  by (simp add: findings_def)

lemma findings_Cons [walker_simps]:
  "findings po pp mp (item # its) = item_findings po pp mp item @ findings po pp mp its"
  by (simp add: findings_def)

lemma findings_append:
  "findings po pp mp (its @ its') = findings po pp mp its @ findings po pp mp its'"
  by (simp add: findings_def)

text \<open>Below a scope that is not public the public-only policy reports nothing.\<close>

lemma item_findings_private: "item_findings True False mp item = []"
  by (induction "True" "False" mp item rule: item_findings.induct) (auto simp: reportable_def)

lemma findings_private [simp]: "findings True False mp its = []"
  by (simp add: findings_def item_findings_private)

lemma item_findings_mod [walker_simps]:
  "item_findings po pp mp (ItemMod ats vis ident (Some its)) =
     (if descends po pp ats vis
      then findings po (vis = Public \<and> pp) (format_qualified mp ident) its
      else [])"
  by (auto simp: descends_def findings_def item_findings_private)

declare item_findings.simps(4) [simp del]

section \<open>The traversal computes the specification\<close>

lemma collect_items_findings:
  "collect_items its mp acc po pp = acc @ findings po pp mp its"
proof (induction its arbitrary: mp acc po pp rule: measure_induct_rule [of "size_list size"])
  case (less its)
  show ?case
  proof (cases its)
    case Nil
    then show ?thesis by simp
  next
    case (Cons item rest)
    then have rest: "collect_items rest mp a po pp = a @ findings po pp mp rest" for a
      by (intro less.IH) simp
    show ?thesis
    proof (cases item)
      case (ItemMod ats vis ident content)
      show ?thesis
      proof (cases content)
        case None
        with Cons ItemMod rest show ?thesis
          by (simp add: walker_simps)
      next
        case (Some body)
        with Cons ItemMod have "collect_items body m a po p = a @ findings po p m body" for m a p
          by (intro less.IH) simp
        with Cons ItemMod Some rest show ?thesis
          by (simp add: walker_simps collect_reflect_types.simps)
      qed
    qed (use Cons rest in \<open>simp_all add: walker_simps\<close>)
  qed
qed

text \<open>
  C4.  The traversal appends to the findings it is given exactly the
  findings the specification lists for the items of the file, in the
  specification's order: the mutable vector threaded through the recursion
  and the pruning of non-public modules change nothing of the result.
\<close>

theorem collect_reflect_types_findings:
  "collect_reflect_types f mp acc po pp = acc @ findings po pp mp (items f)"
  by (simp add: collect_reflect_types.simps collect_items_findings)

section \<open>Derivations of a finding\<close>

text \<open>
  The declarative reading of the specification: a name is reported for a
  list of items when one of them is a reportable struct or enum of that
  name, or a module with content that is not test-guarded and for whose
  content the name (one level deeper) is reported.  The parent flag handed
  down is the conjunction of the visibilities passed.
\<close>

inductive reported :: "bool \<Rightarrow> bool \<Rightarrow> string \<Rightarrow> item list \<Rightarrow> string \<Rightarrow> bool" where
  struct: "ItemStruct ats vis ident \<in> set its \<Longrightarrow> reportable po pp ats vis \<Longrightarrow>
     reported po pp mp its (format_qualified mp ident)"
| enum: "ItemEnum ats vis ident \<in> set its \<Longrightarrow> reportable po pp ats vis \<Longrightarrow>
     reported po pp mp its (format_qualified mp ident)"
| nested: "ItemMod ats vis ident (Some body) \<in> set its \<Longrightarrow> \<not> has_cfg_test ats \<Longrightarrow>
     reported po (vis = Public \<and> pp) (format_qualified mp ident) body x \<Longrightarrow>
     reported po pp mp its x"

inductive_cases reported_NilE [elim!]: "reported po pp mp [] x"

lemma reported_mono_items:
  "reported po pp mp its x \<Longrightarrow> set its \<subseteq> set its' \<Longrightarrow> reported po pp mp its' x"
  by (induction rule: reported.induct) (auto intro: reported.intros)

lemma reported_private: "\<not> reported True False mp its x"
proof
  assume "reported True False mp its x"
  then show False
    by (induction "True" "False" mp its x rule: reported.induct) (simp_all add: reportable_def)
qed

lemma item_findings_reported:
  "x \<in> set (item_findings po pp mp item) \<Longrightarrow> reported po pp mp [item] x"
proof (induction po pp mp item arbitrary: x rule: item_findings.induct)
  case (4 po pp mp ats vis ident its)
  from "4.prems" have guard: "\<not> has_cfg_test ats"
    by (auto simp: item_findings.simps(4) split: if_splits)
  with "4.prems" obtain item where item: "item \<in> set its"
    and x: "x \<in> set (item_findings po (vis = Public \<and> pp) (format_qualified mp ident) item)"
    by (auto simp: item_findings.simps(4))
  from guard item x have "reported po (vis = Public \<and> pp) (format_qualified mp ident) [item] x"
    by (rule "4.IH")
  then have "reported po (vis = Public \<and> pp) (format_qualified mp ident) its x"
    by (rule reported_mono_items) (use item in simp)
  with guard show ?case
    by (auto intro: reported.nested [of ats vis ident its])
qed (auto split: if_splits intro: reported.struct reported.enum)

lemma findings_reported:
  "x \<in> set (findings po pp mp its) \<Longrightarrow> reported po pp mp its x"
proof -
  assume "x \<in> set (findings po pp mp its)"
  then obtain item where "item \<in> set its" "x \<in> set (item_findings po pp mp item)"
    by (auto simp: findings_def)
  then show ?thesis
    by (auto dest!: item_findings_reported elim: reported_mono_items)
qed

lemma reported_findings:
  "reported po pp mp its x \<Longrightarrow> x \<in> set (findings po pp mp its)"
proof (induction rule: reported.induct)
  case (nested ats vis ident body its po pp mp x)
  then have "x \<in> set (item_findings po pp mp (ItemMod ats vis ident (Some body)))"
    by (simp add: item_findings.simps(4) findings_def)
  with nested.hyps(1) show ?case
    unfolding findings_def by auto
qed (force simp: findings_def)+

text \<open>
  C34.  A name is among the findings of the traversal, started with an
  empty vector, exactly when it has a derivation: a chain of modules with
  content, none of them test-guarded, that ends in a struct or enum for
  which the detection predicate holds and which, under the public-only
  policy, is public together with every module of the chain and the scope
  the traversal started in.
\<close>

theorem collect_reflect_types_reported:
  "x \<in> set (collect_reflect_types f mp [] po pp) \<longleftrightarrow> reported po pp mp (items f) x"
  by (auto simp: collect_reflect_types.simps collect_items_findings
      intro: findings_reported reported_findings)

section \<open>Visibility and the test guard\<close>

text \<open>
  Under the public-only policy nothing is reported from a scope that
  is not public: the traversal returns the vector unchanged, whatever the
  items are.
\<close>

theorem private_scope_reports_nothing:
  "collect_reflect_types f mp acc True False = acc"
  by (simp add: collect_reflect_types.simps collect_items_findings)

lemma test_guarded_findings:
  "has_cfg_test ats \<Longrightarrow> item_findings po pp mp (ItemMod ats vis ident content) = []"
  by (cases content) (simp_all add: item_findings.simps(4))

text \<open>
  C7.  A test-guarded module contributes nothing, whatever it contains and
  whatever its visibility: the traversal of a file yields the same
  findings as the traversal of the file without that module.
\<close>

theorem test_guarded_module_skipped:
  assumes "has_cfg_test ats"
  shows "collect_reflect_types (f\<lparr>items := pre @ ItemMod ats vis ident content # post\<rparr>) mp acc po pp =
         collect_reflect_types (f\<lparr>items := pre @ post\<rparr>) mp acc po pp"
  using assms
  by (simp add: collect_reflect_types.simps collect_items_findings findings_append findings_Cons
      test_guarded_findings)

theorem test_guarded_module_skipped_witness:
  "has_cfg_test [cfg_test_attr] \<and>
   collect_reflect_types
     \<lparr>shebang = None, attrs = [],
        items = [ItemMod [cfg_test_attr] Public ''tests''
                   (Some [ItemStruct [derive_attr [''Reflect'', ''Component'']] Public ''Marker''])]\<rparr>
     ''app'' [] True True = []"
proof -
  have h: "has_cfg_test [cfg_test_attr]"
    by simp
  have "collect_reflect_types \<lparr>shebang = None, attrs = [], items = []\<rparr> ''app'' [] True True = []"
    by (simp add: collect_reflect_types.simps)
  with test_guarded_module_skipped [OF h,
      where f = "\<lparr>shebang = None, attrs = [], items = []\<rparr>" and pre = "[]" and post = "[]"
        and mp = "''app''" and acc = "[]" and po = True and pp = True and vis = Public
        and ident = "''tests''"
        and content = "Some [ItemStruct [derive_attr [''Reflect'', ''Component'']] Public ''Marker'']"]
  have "collect_reflect_types
     \<lparr>shebang = None, attrs = [],
        items = [ItemMod [cfg_test_attr] Public ''tests''
                   (Some [ItemStruct [derive_attr [''Reflect'', ''Component'']] Public ''Marker''])]\<rparr>
     ''app'' [] True True = []"
    by simp
  with h show ?thesis ..
qed

text \<open>
  C8.  Under the public-only policy a module that is not public is passed
  over with its whole content, also when the content is declared public.
\<close>

theorem non_public_module_pruned:
  assumes "vis \<noteq> Public"
  shows "collect_reflect_types (f\<lparr>items := pre @ ItemMod ats vis ident content # post\<rparr>) mp acc True pp =
         collect_reflect_types (f\<lparr>items := pre @ post\<rparr>) mp acc True pp"
proof -
  from assms have "item_findings True pp mp (ItemMod ats vis ident content) = []"
    by (cases content) (simp_all add: item_findings_mod descends_def)
  then show ?thesis
    by (simp add: collect_reflect_types.simps collect_items_findings findings_append findings_Cons)
qed

text \<open>
  The witness is the example of the specification: a private module
  \<^verbatim>\<open>outer\<close> that contains a public module \<^verbatim>\<open>inner\<close> with a public
  qualifying type.
\<close>

theorem non_public_module_pruned_witness:
  "Inherited \<noteq> Public \<and>
   collect_reflect_types
     \<lparr>shebang = None, attrs = [],
        items = [ItemMod [] Inherited ''outer''
                   (Some [ItemMod [] Public ''inner''
                      (Some [ItemStruct [derive_attr [''Reflect'', ''Component'']] Public
                               ''Marker''])])]\<rparr>
     ''app'' [] True True = []"
proof -
  have h: "Inherited \<noteq> Public"
    by simp
  have "collect_reflect_types \<lparr>shebang = None, attrs = [], items = []\<rparr> ''app'' [] True True = []"
    by (simp add: collect_reflect_types.simps)
  with non_public_module_pruned [OF h,
      where f = "\<lparr>shebang = None, attrs = [], items = []\<rparr>" and pre = "[]" and post = "[]"
        and mp = "''app''" and acc = "[]" and pp = True and ats = "[]" and ident = "''outer''"
        and content = "Some [ItemMod [] Public ''inner''
                      (Some [ItemStruct [derive_attr [''Reflect'', ''Component'']] Public
                               ''Marker''])]"]
  have "collect_reflect_types
     \<lparr>shebang = None, attrs = [],
        items = [ItemMod [] Inherited ''outer''
                   (Some [ItemMod [] Public ''inner''
                      (Some [ItemStruct [derive_attr [''Reflect'', ''Component'']] Public
                               ''Marker''])])]\<rparr>
     ''app'' [] True True = []"
    by simp
  with h show ?thesis ..
qed

section \<open>The policy switched off\<close>

text \<open>Every item made public, modules with their content.\<close>

fun publish :: "item \<Rightarrow> item" where
  "publish (ItemStruct ats vis ident) = ItemStruct ats Public ident"
| "publish (ItemEnum ats vis ident) = ItemEnum ats Public ident"
| "publish (ItemMod ats vis ident content) = ItemMod ats Public ident (map_option (map publish) content)"
| "publish ItemOther = ItemOther"

lemma item_findings_publish:
  "item_findings False pp mp item = item_findings True True mp (publish item)"
proof (induction "False" pp mp item rule: item_findings.induct)
  case (4 pp mp ats vis ident its)
  then show ?case
    by (simp add: item_findings.simps(4) cong: map_cong)
qed (simp_all add: reportable_def)

lemma findings_publish:
  "findings False pp mp its = findings True True mp (map publish its)"
  by (induction its) (simp_all add: findings_Cons item_findings_publish)

text \<open>
  With the public-only policy switched off the visibilities play no
  part: the traversal yields what the public-only traversal yields from
  the root scope after every item has been made public.
\<close>

theorem policy_off_ignores_visibility:
  "collect_reflect_types f mp acc False pp =
   collect_reflect_types (f\<lparr>items := map publish (items f)\<rparr>) mp acc True True"
  by (simp add: collect_reflect_types.simps collect_items_findings findings_publish)

section \<open>How many findings there can be\<close>

text \<open>The structs and enums of an item, at any depth.\<close>

fun type_count :: "item \<Rightarrow> nat" where
  "type_count (ItemStruct ats vis ident) = 1"
| "type_count (ItemEnum ats vis ident) = 1"
| "type_count (ItemMod ats vis ident None) = 0"
| "type_count (ItemMod ats vis ident (Some its)) = sum_list (map type_count its)"
| "type_count ItemOther = 0"

lemma length_item_findings: "length (item_findings po pp mp item) \<le> type_count item"
proof (induction po pp mp item rule: item_findings.induct)
  case (4 po pp mp ats vis ident its)
  show ?case
  proof (cases "has_cfg_test ats")
    case True
    then show ?thesis by (simp add: item_findings.simps(4))
  next
    case False
    have "length (concat (map (item_findings po (vis = Public \<and> pp) (format_qualified mp ident)) its))
        = sum_list (map (\<lambda>i. length (item_findings po (vis = Public \<and> pp)
            (format_qualified mp ident) i)) its)"
      by (simp add: length_concat comp_def)
    also have "\<dots> \<le> sum_list (map type_count its)"
      using "4.IH" [OF False] by (intro sum_list_mono) simp
    finally show ?thesis
      using False by (simp add: item_findings.simps(4))
  qed
qed simp_all

lemma length_findings: "length (findings po pp mp its) \<le> sum_list (map type_count its)"
proof -
  have "length (findings po pp mp its) =
      sum_list (map (\<lambda>i. length (item_findings po pp mp i)) its)"
    by (simp add: findings_def length_concat comp_def)
  also have "\<dots> \<le> sum_list (map type_count its)"
    by (intro sum_list_mono) (simp add: length_item_findings)
  finally show ?thesis .
qed

text \<open>
  C30.  The traversal adds at most one finding for every struct and enum
  of the file, nested ones included: no type is reported twice from one
  file.
\<close>

theorem findings_bounded:
  "length (collect_reflect_types f mp acc po pp) \<le>
   length acc + sum_list (map type_count (items f))"
  by (simp add: collect_reflect_types.simps collect_items_findings length_findings)

end
