(* ===== verification/Output.thy ===== *)
theory Output
  imports Rust_Str
begin

text \<open>
  The presentation of the result (\<^verbatim>\<open>src/main.rs\<close>, line 42):
  \<^verbatim>\<open>println!("{:?}", reflect_types)\<close> writes the vector in the \<^verbatim>\<open>Debug\<close>
  format of the standard library, brackets around the elements separated
  by a comma and a space, every string between quotation marks with its
  characters escaped as \<^verbatim>\<open>char::escape_debug\<close> does, and a line feed.

  A string is a list of bytes here.  For the characters of ASCII the
  escapes are those of Rust: \<^verbatim>\<open>\0\<close>, \<^verbatim>\<open>\t\<close>, \<^verbatim>\<open>\r\<close>, \<^verbatim>\<open>\n\<close>,
  \<^verbatim>\<open>\\\<close>, \<^verbatim>\<open>\"\<close>, and \<^verbatim>\<open>\u{..}\<close> for the other control characters;
  the bytes of a character beyond ASCII are written as they are, which is
  what Rust does when the character is printable.  The second half of the
  theory reads the output back: \<open>parse_debug_vec\<close> is a parser for the
  format, total by a termination proof, and the round trip shows that the
  output determines the vector.
\<close>

section \<open>Escapes\<close>

definition backslash :: char where
  "backslash = CHR 0x5C"

definition double_quote :: char where
  "double_quote = CHR 0x22"

definition hex_digit :: "nat \<Rightarrow> char" where
  "hex_digit n = (if n < 10 then char_of (48 + n) else char_of (87 + n))"

fun to_hex :: "nat \<Rightarrow> string" where
  "to_hex n = (if n < 16 then [hex_digit n] else to_hex (n div 16) @ [hex_digit (n mod 16)])"

declare to_hex.simps [simp del]

definition is_printable :: "char \<Rightarrow> bool" where
  "is_printable c \<longleftrightarrow> 0x20 \<le> (of_char c :: nat) \<and> (of_char c :: nat) \<noteq> 0x7F"

definition escape_unicode :: "char \<Rightarrow> string" where
  "escape_unicode c = [backslash, CHR ''u'', CHR ''{''] @ to_hex (of_char c) @ [CHR ''}'']"

definition escape_debug :: "char \<Rightarrow> string" where
  "escape_debug c =
     (if c = CHR 0x00 then [backslash, CHR ''0'']
      else if c = CHR 0x09 then [backslash, CHR ''t'']
      else if c = CHR 0x0D then [backslash, CHR ''r'']
      else if c = CHR 0x0A then [backslash, CHR ''n'']
      else if c = backslash then [backslash, backslash]
      else if c = double_quote then [backslash, double_quote]
      else if is_printable c then [c]
      else escape_unicode c)"

definition str_debug :: "string \<Rightarrow> string" where
  "str_debug s = double_quote # concat (map escape_debug s) @ [double_quote]"

definition vec_debug :: "string list \<Rightarrow> string" where
  "vec_debug xs = ''['' @ join (map str_debug xs) '', '' @ '']''"

definition println_debug :: "string list \<Rightarrow> string" where
  "println_debug xs = vec_debug xs @ [CHR 0x0A]"

lemmas [rust_eval] =
  backslash_def double_quote_def hex_digit_def is_printable_def escape_unicode_def
  escape_debug_def str_debug_def vec_debug_def println_debug_def

section \<open>Reading the output back\<close>

definition unhex_digit :: "char \<Rightarrow> nat option" where
  "unhex_digit c =
     (let k = (of_char c :: nat)
      in if 48 \<le> k \<and> k \<le> 57 then Some (k - 48)
         else if 97 \<le> k \<and> k \<le> 102 then Some (k - 87)
         else None)"

fun from_hex :: "nat \<Rightarrow> string \<Rightarrow> nat option" where
  "from_hex acc [] = Some acc"
| "from_hex acc (c # cs) =
     (case unhex_digit c of None \<Rightarrow> None | Some d \<Rightarrow> from_hex (16 * acc + d) cs)"

text \<open>
  The character of a unicode escape, read behind \<^verbatim>\<open>\u{\<close>: hexadecimal
  digits up to the closing brace.
\<close>

definition read_unicode :: "string \<Rightarrow> (char \<times> string) option" where
  "read_unicode r =
     (let digits = takeWhile (\<lambda>x. x \<noteq> CHR ''}'') r
      in case dropWhile (\<lambda>x. x \<noteq> CHR ''}'') r of
           [] \<Rightarrow> None
         | brace # rest \<Rightarrow>
             if digits = [] then None
             else (case from_hex 0 digits of
                     None \<Rightarrow> None
                   | Some n \<Rightarrow> if n < 256 then Some (char_of n, rest) else None))"

text \<open>One escape behind a backslash: the character it stands for and the rest of the input.\<close>

fun unescape :: "string \<Rightarrow> (char \<times> string) option" where
  "unescape [] = None"
| "unescape (e # r) =
     (if e = CHR ''0'' then Some (CHR 0x00, r)
      else if e = CHR ''t'' then Some (CHR 0x09, r)
      else if e = CHR ''r'' then Some (CHR 0x0D, r)
      else if e = CHR ''n'' then Some (CHR 0x0A, r)
      else if e = backslash then Some (backslash, r)
      else if e = double_quote then Some (double_quote, r)
      else if e = CHR ''u''
      then (case r of [] \<Rightarrow> None | b # r' \<Rightarrow> if b = CHR ''{'' then read_unicode r' else None)
      else None)"

lemma read_unicode_length: "read_unicode s = Some (c, r) \<Longrightarrow> length r < length s"
proof -
  assume "read_unicode s = Some (c, r)"
  then obtain brace where "dropWhile (\<lambda>x. x \<noteq> CHR ''}'') s = brace # r"
    by (auto simp: read_unicode_def Let_def split: list.splits if_splits option.splits)
  with length_dropWhile_le [of "\<lambda>x. x \<noteq> CHR ''}''" s] show ?thesis
    by simp
qed

lemma unescape_length: "unescape s = Some (c, r) \<Longrightarrow> length r < length s"
  by (cases s) (auto split: if_splits list.splits dest: read_unicode_length)

function take_str :: "string \<Rightarrow> (string \<times> string) option" where
  "take_str [] = None"
| "take_str (c # cs) =
     (if c = double_quote then Some ([], cs)
      else if c = backslash
      then (case unescape cs of
              None \<Rightarrow> None
            | Some (ch, r) \<Rightarrow> map_option (\<lambda>(x, rest). (ch # x, rest)) (take_str r))
      else map_option (\<lambda>(x, rest). (c # x, rest)) (take_str cs))"
  by pat_completeness auto
termination
  by (relation "measure length") (auto dest: unescape_length)

declare take_str.simps [simp del]

function parse_items :: "string \<Rightarrow> string list option" where
  "parse_items s =
     (case take_str s of
        None \<Rightarrow> None
      | Some (x, r) \<Rightarrow>
          if r = '']'' then Some [x]
          else if prefix [CHR '','', CHR '' '', double_quote] r
          then map_option ((#) x) (parse_items (drop 3 r))
          else None)"
  by pat_completeness auto

lemma take_str_length: "take_str s = Some (x, r) \<Longrightarrow> length r < length s"
proof (induction s arbitrary: x r rule: take_str.induct)
  case 1
  then show ?case by (simp add: take_str.simps)
next
  case (2 c cs)
  show ?case
  proof (cases "c = double_quote")
    case True
    with "2.prems" show ?thesis by (simp add: take_str.simps)
  next
    case False
    show ?thesis
    proof (cases "c = backslash")
      case True
      with False "2.prems" obtain ch r' y where u: "unescape cs = Some (ch, r')"
        and t: "take_str r' = Some (y, r)"
        by (auto simp: take_str.simps split: option.splits)
      from "2.IH"(1) [OF False True u refl t] unescape_length [OF u] show ?thesis
        by simp
    next
      case bs: False
      with False "2.prems" obtain y where "take_str cs = Some (y, r)"
        by (auto simp: take_str.simps)
      from "2.IH"(2) [OF False bs this] show ?thesis
        by simp
    qed
  qed
qed

termination parse_items
  by (relation "measure length") (auto dest: take_str_length)

declare parse_items.simps [simp del]

definition parse_debug_vec :: "string \<Rightarrow> string list option" where
  "parse_debug_vec s =
     (if s = ''[]'' then Some []
      else if prefix [CHR ''['', double_quote] s then parse_items (drop 2 s)
      else None)"

section \<open>Hexadecimal digits\<close>

lemma unhex_hex_digit: "n < 16 \<Longrightarrow> unhex_digit (hex_digit n) = Some n"
  by (auto simp: unhex_digit_def hex_digit_def Let_def)

lemma hex_digit_not_brace: "n < 16 \<Longrightarrow> hex_digit n \<noteq> CHR ''}''"
  using unhex_hex_digit [of n] by (auto simp: unhex_digit_def)

lemma brace_not_hex_digit [simp]: "n < 16 \<Longrightarrow> CHR ''}'' \<noteq> hex_digit n"
  using hex_digit_not_brace [of n] by auto

lemma from_hex_snoc:
  "d < 16 \<Longrightarrow> from_hex acc (ds @ [hex_digit d]) = map_option (\<lambda>m. 16 * m + d) (from_hex acc ds)"
  by (induction ds arbitrary: acc) (auto simp: unhex_hex_digit split: option.splits)

lemma from_hex_to_hex: "from_hex 0 (to_hex n) = Some n"
proof (induction n rule: to_hex.induct)
  case (1 n)
  show ?case
  proof (cases "n < 16")
    case True
    then show ?thesis
      by (simp add: to_hex.simps [of n] unhex_hex_digit)
  next
    case False
    with "1.IH" show ?thesis
      by (simp add: to_hex.simps [of n] from_hex_snoc)
  qed
qed

lemma to_hex_no_brace: "CHR ''}'' \<notin> set (to_hex n)"
proof (induction n rule: to_hex.induct)
  case (1 n)
  then show ?case
    by (cases "n < 16") (auto simp: to_hex.simps [of n] hex_digit_not_brace)
qed

lemma to_hex_nonempty: "to_hex n \<noteq> []"
  by (simp add: to_hex.simps [of n])

lemma length_to_hex: "n < 256 \<Longrightarrow> length (to_hex n) \<le> 2"
  by (simp add: to_hex.simps [of n] to_hex.simps [of "n div 16"])

section \<open>Escaping and reading back\<close>

lemma read_unicode_to_hex:
  "read_unicode (to_hex (of_char c) @ CHR ''}'' # rest) = Some (c, rest)"
proof -
  have "\<forall>x \<in> set (to_hex (of_char c)). x \<noteq> CHR ''}''"
    using to_hex_no_brace [of "of_char c"] by blast
  then have "takeWhile (\<lambda>x. x \<noteq> CHR ''}'') (to_hex (of_char c) @ CHR ''}'' # rest) =
      to_hex (of_char c)"
    and "dropWhile (\<lambda>x. x \<noteq> CHR ''}'') (to_hex (of_char c) @ CHR ''}'' # rest) =
      CHR ''}'' # rest"
    by simp_all
  then show ?thesis
    by (simp add: read_unicode_def to_hex_nonempty from_hex_to_hex)
qed

text \<open>
  A character is written as it is, or as a backslash and an escape that
  reads back as the character.
\<close>

definition plain_char :: "char \<Rightarrow> bool" where
  "plain_char c \<longleftrightarrow>
     is_printable c \<and> c \<noteq> backslash \<and> c \<noteq> double_quote"

lemma printable_not_control:
  "is_printable c \<Longrightarrow> c \<noteq> CHR 0x00 \<and> c \<noteq> CHR 0x09 \<and> c \<noteq> CHR 0x0D \<and> c \<noteq> CHR 0x0A"
  by (auto simp: is_printable_def)

lemma escape_debug_plain: "plain_char c \<Longrightarrow> escape_debug c = [c]"
  using printable_not_control [of c] by (simp add: plain_char_def escape_debug_def)

lemma escape_debug_escaped:
  assumes "\<not> plain_char c"
  shows "\<exists>e. escape_debug c = backslash # e \<and> (\<forall>r. unescape (e @ r) = Some (c, r))"
proof -
  consider "c = CHR 0x00" | "c = CHR 0x09" | "c = CHR 0x0D" | "c = CHR 0x0A"
    | "c = backslash" | "c = double_quote"
    | "c \<noteq> CHR 0x00" "c \<noteq> CHR 0x09" "c \<noteq> CHR 0x0D" "c \<noteq> CHR 0x0A" "c \<noteq> backslash"
      "c \<noteq> double_quote" "\<not> is_printable c"
    using assms by (auto simp: plain_char_def)
  then show ?thesis
  proof cases
    case 7
    then have "escape_debug c = backslash # CHR ''u'' # CHR ''{'' # to_hex (of_char c) @ ''}''"
      by (simp add: escape_debug_def escape_unicode_def)
    moreover have "unescape ((CHR ''u'' # CHR ''{'' # to_hex (of_char c) @ ''}'') @ r) = Some (c, r)"
      for r
      by (simp add: backslash_def double_quote_def read_unicode_to_hex)
    ultimately show ?thesis by blast
  qed (simp_all add: escape_debug_def backslash_def double_quote_def)
qed

lemma take_str_escaped:
  "take_str (concat (map escape_debug s) @ double_quote # rest) = Some (s, rest)"
proof (induction s)
  case Nil
  show ?case by (simp add: take_str.simps)
next
  case (Cons c s)
  show ?case
  proof (cases "plain_char c")
    case True
    with Cons show ?thesis
      by (simp add: take_str.simps escape_debug_plain plain_char_def)
  next
    case False
    then obtain e where "escape_debug c = backslash # e"
      and "\<And>r. unescape (e @ r) = Some (c, r)"
      using escape_debug_escaped by blast
    with Cons show ?thesis
      by (simp add: take_str.simps backslash_def double_quote_def)
  qed
qed

text \<open>The text of a non-empty vector behind its first quotation mark.\<close>

fun vec_body :: "string list \<Rightarrow> string" where
  "vec_body [] = []"
| "vec_body [x] = concat (map escape_debug x) @ [double_quote]"
| "vec_body (x # y # zs) =
     concat (map escape_debug x) @ double_quote # CHR '','' # CHR '' '' # double_quote #
     vec_body (y # zs)"

lemma join_str_debug:
  "xs \<noteq> [] \<Longrightarrow> join (map str_debug xs) '', '' = double_quote # vec_body xs"
  by (induction xs rule: vec_body.induct) (simp_all add: str_debug_def)

lemma parse_items_vec_body:
  "xs \<noteq> [] \<Longrightarrow> parse_items (vec_body xs @ '']'') = Some xs"
proof (induction xs rule: vec_body.induct)
  case 1
  then show ?case by simp
next
  case (2 x)
  show ?case
    using take_str_escaped [of x "'']''"]
    by (simp add: parse_items.simps [of "concat (map escape_debug x) @ double_quote # '']''"])
next
  case (3 x y zs)
  let ?rest = "CHR '','' # CHR '' '' # double_quote # vec_body (y # zs) @ '']''"
  have "take_str (concat (map escape_debug x) @ double_quote # ?rest) = Some (x, ?rest)"
    by (rule take_str_escaped)
  with "3.IH" show ?case
    by (simp add: parse_items.simps [of "concat (map escape_debug x) @ double_quote # ?rest"])
qed

lemma parse_debug_vec_roundtrip: "parse_debug_vec (vec_debug xs) = Some xs"
proof (cases "xs = []")
  case True
  then show ?thesis
    by (simp add: parse_debug_vec_def vec_debug_def)
next
  case False
  then have "vec_debug xs = CHR ''['' # double_quote # vec_body xs @ '']''"
    by (simp add: vec_debug_def join_str_debug)
  with False show ?thesis
    by (simp add: parse_debug_vec_def parse_items_vec_body double_quote_def)
qed

text \<open>
  The format is unambiguous: two vectors that are printed alike
  are equal, whatever characters the names contain.
\<close>

theorem vec_debug_injective: "vec_debug xs = vec_debug ys \<longleftrightarrow> xs = ys"
proof
  assume "vec_debug xs = vec_debug ys"
  then have "parse_debug_vec (vec_debug xs) = parse_debug_vec (vec_debug ys)"
    by (rule arg_cong)
  then show "xs = ys"
    by (simp add: parse_debug_vec_roundtrip)
qed simp

section \<open>The size and the look of the output\<close>

lemma length_escape_debug: "length (escape_debug c) \<le> 6" "1 \<le> length (escape_debug c)"
  using length_to_hex [of "of_char c"]
  by (auto simp: escape_debug_def escape_unicode_def)

lemma length_concat_escape:
  "length (concat (map escape_debug s)) \<le> 6 * length s \<and>
   length s \<le> length (concat (map escape_debug s))"
proof (induction s)
  case Nil
  show ?case by simp
next
  case (Cons c s)
  with length_escape_debug [of c] show ?case
    by simp
qed

text \<open>
  A string of \<open>n\<close> characters is printed with at least \<open>n + 2\<close> and
  at most \<open>6 * n + 2\<close> characters: the longest escape has six.
\<close>

theorem length_str_debug:
  "length s + 2 \<le> length (str_debug s) \<and> length (str_debug s) \<le> 6 * length s + 2"
  using length_concat_escape [of s] by (simp add: str_debug_def)

lemma concat_escape_plain:
  "list_all plain_char s \<Longrightarrow> concat (map escape_debug s) = s"
  by (induction s) (simp_all add: escape_debug_plain)

lemma str_debug_plain:
  "list_all plain_char s \<Longrightarrow> str_debug s = double_quote # s @ [double_quote]"
  by (simp add: str_debug_def concat_escape_plain)

text \<open>
  Names made of printable characters other than the backslash and
  the quotation mark, as the names of modules and types are, are printed
  between quotation marks as they are.
\<close>

theorem vec_debug_plain:
  assumes "list_all (list_all plain_char) xs"
  shows "vec_debug xs =
         ''['' @ join (map (\<lambda>s. double_quote # s @ [double_quote]) xs) '', '' @ '']''"
proof -
  from assms have "map str_debug xs = map (\<lambda>s. double_quote # s @ [double_quote]) xs"
    by (induction xs) (simp_all add: str_debug_def concat_escape_plain)
  then show ?thesis
    by (simp only: vec_debug_def)
qed

theorem vec_debug_plain_witness:
  "list_all (list_all plain_char) [''bevy_ui::Node'', ''bevy_ui::Style''] \<and>
   vec_debug [''bevy_ui::Node'', ''bevy_ui::Style''] =
     CHR ''['' # double_quote # ''bevy_ui::Node'' @ double_quote # '', '' @
     double_quote # ''bevy_ui::Style'' @ double_quote # '']''"
proof -
  have h: "list_all (list_all plain_char) [''bevy_ui::Node'', ''bevy_ui::Style'']"
    by (simp add: plain_char_def is_printable_def backslash_def double_quote_def)
  from vec_debug_plain [OF h] h show ?thesis
    by simp
qed

end
