(* ===== verification/Pipeline.thy ===== *)
theory Pipeline
  imports Discovery Walker Output "HOL-Library.AList" "HOL-Library.Multiset"
begin

text \<open>
  The function \<^verbatim>\<open>main\<close> (\<^verbatim>\<open>src/main.rs\<close>, lines 8 to 43) and its two
  loops behind the discovery: the loader, which reads and parses every discovered file and
  enters it into the module tree with \<^verbatim>\<open>build_module_tree\<close>, and the
  scan, which resolves the module path of every entry of the tree and runs
  the walker on it.

  The module tree is a \<^verbatim>\<open>HashMap\<close> from path strings to syntax trees.  It
  is modelled as an association list with distinct keys, the insertion as
  \<^const>\<open>AList.update\<close>.  A hash map iterates in an order the program
  does not control; the model iterates in the order of the list, and
  \<open>scan_tree_order\<close> shows that another order permutes the result and
  changes nothing else.  Reading and parsing are the parameters \<open>read\<close>
  and \<open>parse\<close> of the loader, each with a result; \<open>read_to_string\<close> is
  the reader of the program over the bytes of the files, and the parser
  stays a parameter.
\<close>

section \<open>The module tree\<close>

type_synonym module_tree = "(string \<times> syn_file) list"

definition build_module_tree :: "string \<Rightarrow> syn_file \<Rightarrow> module_tree \<Rightarrow> module_tree" where
  "build_module_tree path f module_tree = AList.update path f module_tree"

section \<open>The loader\<close>

definition load_step ::
  "(string \<Rightarrow> ('e, string) result) \<Rightarrow> (string \<Rightarrow> ('p, syn_file) result) \<Rightarrow>
   string \<Rightarrow> module_tree \<Rightarrow> module_tree" where
  "load_step read parse path module_tree =
     (case read path of
        Inl e \<Rightarrow> module_tree
      | Inr content \<Rightarrow>
          (case parse content of
             Inl e \<Rightarrow> module_tree
           | Inr syntax \<Rightarrow> build_module_tree path syntax module_tree))"

definition load_files ::
  "(string \<Rightarrow> ('e, string) result) \<Rightarrow> (string \<Rightarrow> ('p, syn_file) result) \<Rightarrow>
   string list \<Rightarrow> module_tree" where
  "load_files read parse source_files = fold (load_step read parse) source_files []"

section \<open>Reading a file\<close>

text \<open>
  \<^verbatim>\<open>fs::read_to_string\<close>: the bytes that the operating system returns for
  the path, if it returns any and they are valid UTF-8.  The operating
  system is a function from the path to the bytes or an error.  The loader
  is defined for any function \<open>read\<close>; what is shown of it holds for this
  one.
\<close>

datatype io_error = NotFound | PermissionDenied | IsADirectory | InvalidData

type_synonym disk = "string \<Rightarrow> (io_error, string) result"

definition read_to_string :: "disk \<Rightarrow> string \<Rightarrow> (io_error, string) result" where
  "read_to_string disk path =
     (case disk path of
        Inl e \<Rightarrow> Err e
      | Inr bytes \<Rightarrow> if valid_utf8 bytes then Ok bytes else Err InvalidData)"

section \<open>The scan\<close>

definition scan_step :: "metadata \<Rightarrow> string \<times> syn_file \<Rightarrow> string list \<Rightarrow> string list" where
  "scan_step md entry reflect_types =
     (case resolve_module_path (fst entry) md of
        Some module_path \<Rightarrow> collect_reflect_types (snd entry) module_path reflect_types True True
      | None \<Rightarrow> reflect_types)"

definition scan_tree :: "metadata \<Rightarrow> module_tree \<Rightarrow> string list" where
  "scan_tree md module_tree = fold (scan_step md) module_tree []"

section \<open>The program\<close>

text \<open>
  \<^verbatim>\<open>main\<close> from the result of the query to \<^verbatim>\<open>cargo metadata\<close>: the
  \<^verbatim>\<open>expect\<close> on a failed query is the panic, everything else ends with
  the vector that is printed.
\<close>

datatype panic = Panic string

definition main ::
  "file_system \<Rightarrow> (string \<Rightarrow> ('e, string) result) \<Rightarrow> (string \<Rightarrow> ('p, syn_file) result) \<Rightarrow>
   ('m, metadata) result \<Rightarrow> (panic, string list) result" where
  "main fs read parse exec =
     (case exec of
        Inl e \<Rightarrow> Err (Panic ''Failed to fetch cargo metadata'')
      | Inr md \<Rightarrow>
          (let source_files = collect_source_files fs ''./src'' [];
               source_files = collect_dependency_files fs md source_files;
               module_tree = load_files read parse source_files;
               reflect_types = scan_tree md module_tree
           in Ok reflect_types))"

text \<open>
  What the program writes to the standard output: the vector in its
  \<^verbatim>\<open>Debug\<close> format, if there is no panic.
\<close>

definition main_stdout ::
  "file_system \<Rightarrow> (string \<Rightarrow> ('e, string) result) \<Rightarrow> (string \<Rightarrow> ('p, syn_file) result) \<Rightarrow>
   ('m, metadata) result \<Rightarrow> (panic, string) result" where
  "main_stdout fs read parse exec =
     (case main fs read parse exec of
        Inl p \<Rightarrow> Err p
      | Inr reflect_types \<Rightarrow> Ok (println_debug reflect_types))"

lemmas [rust_eval] =
  build_module_tree_def load_step_def load_files_def scan_step_def scan_tree_def main_def
  main_stdout_def read_to_string_def

section \<open>An example project\<close>

text \<open>
  A project \<^verbatim>\<open>app\<close> with one source file and one dependency
  \<^verbatim>\<open>bevy_ui\<close> with a source file and an example.  Every Rust file
  declares one public struct that derives \<^verbatim>\<open>Reflect\<close> and
  \<^verbatim>\<open>Component\<close>; the content of a file is stood for by its path.
\<close>

definition example_project :: file_system where
  "example_project dir =
     (if dir = ''./src'' then Some (Directory [(''main.rs'', RegularFile)])
      else if dir = ''/r/bevy_ui''
      then Some (Directory
                   [(''Cargo.toml'', RegularFile),
                    (''src'', Directory [(''lib.rs'', RegularFile)]),
                    (''examples'', Directory [(''demo.rs'', RegularFile)])])
      else None)"

definition example_metadata :: metadata where
  "example_metadata =
     \<lparr>packages =
        [\<lparr>name = ''app'', manifest_path = ''/home/u/app/Cargo.toml''\<rparr>,
         \<lparr>name = ''bevy_ui'', manifest_path = ''/r/bevy_ui/Cargo.toml''\<rparr>]\<rparr>"

definition example_read :: "string \<Rightarrow> (unit, string) result" where
  "example_read path = Ok path"

definition example_parse :: "string \<Rightarrow> (unit, syn_file) result" where
  "example_parse content =
     Ok (nested_file [ItemStruct [derive_attr [''Reflect'', ''Component'']] Public ''Marker''])"

lemma example_discovery:
  "collect_source_files example_project ''./src'' [] = [''./src/main.rs'']"
  "collect_dependency_files example_project example_metadata [] = [''/r/bevy_ui/src/lib.rs'']"
  by (simp_all add: collect_dependency_files_concat package_files_def example_metadata_def
      example_project_def collect_source_files_filter walk_dir_def should_include_dir_name
      to_string_lossy_valid valid_utf8_ascii is_ascii_def extension_def file_name_def rsplit_file_at_dot_def path_join_def crate_root_def
      path_new_def has_root_def include_cur_dir_def piece_component_def parent_def
      starts_with_def)

section \<open>What the loader keeps\<close>

text \<open>What reading and parsing make of a path, if both succeed.\<close>

definition loaded ::
  "(string \<Rightarrow> ('e, string) result) \<Rightarrow> (string \<Rightarrow> ('p, syn_file) result) \<Rightarrow>
   string \<Rightarrow> syn_file option" where
  "loaded read parse path = Option.bind (ok (read path)) (\<lambda>content. ok (parse content))"

lemma load_step_loaded:
  "load_step read parse path tree =
     (case loaded read parse path of
        None \<Rightarrow> tree
      | Some f \<Rightarrow> build_module_tree path f tree)"
  by (simp add: load_step_def loaded_def split: sum.splits)

lemma distinct_load_step:
  "distinct (map fst tree) \<Longrightarrow> distinct (map fst (load_step read parse path tree))"
  by (simp add: load_step_loaded build_module_tree_def distinct_update split: option.splits)

lemma map_of_load_step:
  "map_of (load_step read parse path tree) =
     (case loaded read parse path of
        None \<Rightarrow> map_of tree
      | Some f \<Rightarrow> (map_of tree)(path \<mapsto> f))"
  by (simp add: load_step_loaded build_module_tree_def update_conv' split: option.splits)

lemma distinct_fold_load_step:
  "distinct (map fst tree) \<Longrightarrow> distinct (map fst (fold (load_step read parse) paths tree))"
  by (induction paths arbitrary: tree) (simp_all add: distinct_load_step)

lemma map_of_fold_load_step:
  "map_of (fold (load_step read parse) paths tree) path =
     (if path \<in> set paths \<and> loaded read parse path \<noteq> None
      then loaded read parse path else map_of tree path)"
  by (induction paths arbitrary: tree) (auto simp: map_of_load_step split: option.splits)

text \<open>Entries whose keys the loader does not meet stay in front, untouched.\<close>

lemma update_append_fresh:
  "k \<notin> fst ` set t \<Longrightarrow> AList.update k v (t @ u) = t @ AList.update k v u"
  by (induction t) auto

lemma load_step_append_fresh:
  "path \<notin> fst ` set t \<Longrightarrow> load_step read parse path (t @ u) = t @ load_step read parse path u"
  by (simp add: load_step_loaded build_module_tree_def update_append_fresh split: option.splits)

lemma fold_load_step_append_fresh:
  assumes "set paths \<inter> fst ` set t = {}"
  shows "fold (load_step read parse) paths (t @ u) = t @ fold (load_step read parse) paths u"
  using assms by (induction paths arbitrary: u) (simp_all add: load_step_append_fresh)

lemma keys_update: "fst ` set (AList.update k v al) = insert k (fst ` set al)"
  by (induction al) auto

lemma keys_load_step:
  "fst ` set (load_step read parse path tree) \<subseteq> insert path (fst ` set tree)"
  by (auto simp: load_step_loaded build_module_tree_def keys_update split: option.splits)

lemma keys_fold_load_step:
  "fst ` set (fold (load_step read parse) paths tree) \<subseteq> set paths \<union> fst ` set tree"
proof (induction paths arbitrary: tree)
  case Nil
  show ?case by simp
next
  case (Cons path paths)
  from Cons [of "load_step read parse path tree"] keys_load_step [of read parse path tree]
  show ?case by auto
qed

lemma keys_load_files: "fst ` set (load_files read parse paths) \<subseteq> set paths"
  using keys_fold_load_step [of read parse paths "[]"] by (simp add: load_files_def)

lemma load_files_append:
  assumes "set qs \<inter> set ps = {}"
  shows "load_files read parse (ps @ qs) = load_files read parse ps @ load_files read parse qs"
proof -
  from assms keys_load_files [of read parse ps]
  have "set qs \<inter> fst ` set (load_files read parse ps) = {}"
    by auto
  from fold_load_step_append_fresh [OF this, of read parse "[]"] show ?thesis
    by (simp add: load_files_def)
qed

text \<open>
  The module tree holds every path once, however often the
  discovery has listed it.
\<close>

theorem load_files_distinct:
  "distinct (map fst (load_files read parse source_files))"
  by (simp add: load_files_def distinct_fold_load_step)

text \<open>
  C27.  The module tree maps exactly the discovered paths that can be
  read and parsed, each to its syntax tree; a file that cannot be read or
  parsed is left out without a message.
\<close>

theorem load_files_lookup:
  "map_of (load_files read parse source_files) path =
     (if path \<in> set source_files then loaded read parse path else None)"
  by (simp add: load_files_def map_of_fold_load_step)

section \<open>What is loaded from the disk\<close>

lemma read_to_string_Ok_iff:
  "read_to_string disk path = Ok content \<longleftrightarrow> disk path = Ok content \<and> valid_utf8 content"
  by (auto simp: read_to_string_def split: sum.splits)


text \<open>
  The parser is called on valid UTF-8 only: two parsers that agree on
  the strings load the same tree.  A file whose bytes are not valid is
  skipped like one that cannot be read.
\<close>

lemma loaded_parse_cong:
  assumes "\<And>content. valid_utf8 content \<Longrightarrow> parse content = parse' content"
  shows "loaded (read_to_string disk) parse path = loaded (read_to_string disk) parse' path"
proof (cases "read_to_string disk path")
  case (Inl e)
  then show ?thesis
    by (simp add: loaded_def)
next
  case (Inr content)
  then have "valid_utf8 content"
    by (simp add: read_to_string_Ok_iff)
  with Inr assms show ?thesis
    by (simp add: loaded_def)
qed

lemma load_files_parse_cong:
  assumes "\<And>content. valid_utf8 content \<Longrightarrow> parse content = parse' content"
  shows "load_files (read_to_string disk) parse source_files =
         load_files (read_to_string disk) parse' source_files"
proof -
  have "load_step (read_to_string disk) parse = load_step (read_to_string disk) parse'"
    by (intro ext) (simp add: load_step_loaded loaded_parse_cong [OF assms])
  then show ?thesis
    by (simp add: load_files_def)
qed

lemma load_step_invalid:
  assumes "disk path = Ok bytes" and "\<not> valid_utf8 bytes"
  shows "load_step (read_to_string disk) parse path module_tree = module_tree"
  using assms by (simp add: load_step_def read_to_string_def)

text \<open>
  The entries of the tree, and what the order of the discovery and the
  repetition of a path change: nothing but the order of the entries.
\<close>

lemma load_files_entry:
  "(path, f) \<in> set (load_files read parse files) \<longleftrightarrow>
     path \<in> set files \<and> loaded read parse path = Some f"
proof -
  have "distinct (map fst (load_files read parse files))"
    by (simp add: load_files_def distinct_fold_load_step)
  then have "(path, f) \<in> set (load_files read parse files) \<longleftrightarrow>
      map_of (load_files read parse files) path = Some f"
    by simp
  then show ?thesis
    by (simp add: load_files_def map_of_fold_load_step)
qed

lemma distinct_load_files: "distinct (load_files read parse files)"
  using distinct_fold_load_step [of "[]" read parse files]
  by (simp add: load_files_def distinct_map)

lemma load_files_mset:
  assumes "set files = set files'"
  shows "mset (load_files read parse files) = mset (load_files read parse files')"
proof -
  from assms have "set (load_files read parse files) = set (load_files read parse files')"
    by (auto simp: load_files_entry)
  with set_eq_iff_mset_eq_distinct [OF distinct_load_files distinct_load_files]
  show ?thesis
    by blast
qed

section \<open>What the scan reports\<close>

text \<open>The findings of one entry of the tree.\<close>

definition entry_findings :: "metadata \<Rightarrow> string \<times> syn_file \<Rightarrow> string list" where
  "entry_findings md entry =
     (case resolve_module_path (fst entry) md of
        None \<Rightarrow> []
      | Some module_path \<Rightarrow> findings True True module_path (items (snd entry)))"

lemma scan_step_findings: "scan_step md entry acc = acc @ entry_findings md entry"
  by (simp add: scan_step_def entry_findings_def collect_reflect_types.simps
      collect_items_findings split: option.splits)

lemma scan_tree_concat: "scan_tree md tree = concat (map (entry_findings md) tree)"
  by (simp add: scan_tree_def fold_append_acc [of "scan_step md", OF scan_step_findings])

lemma mset_concat_map:
  "mset (concat (map g xs)) = sum_mset (image_mset (\<lambda>x. mset (g x)) (mset xs))"
  by (induction xs) simp_all

text \<open>
  The scan reports, entry by entry, the findings of the files whose
  path resolves to a module path, under the public-only policy and with
  the file as a public scope; files whose path does not resolve contribute
  nothing.
\<close>

theorem scan_tree_findings:
  "scan_tree md module_tree = concat (map (entry_findings md) module_tree)"
  by (rule scan_tree_concat)

text \<open>
  The order in which the tree is iterated permutes the report and
  changes nothing else: two enumerations of the same entries yield the
  same findings with the same multiplicities.
\<close>

theorem scan_tree_order:
  assumes "mset tree = mset tree'"
  shows "mset (scan_tree md tree) = mset (scan_tree md tree')"
  using assms by (simp add: scan_tree_concat mset_concat_map)

theorem scan_tree_order_witness:
  "mset (scan_tree \<lparr>packages = []\<rparr>
           [(''src/a.rs'', nested_file [ItemStruct [derive_attr [''Reflect'', ''Component'']] Public ''A'']),
            (''src/b.rs'', nested_file [ItemEnum [derive_attr [''Component'', ''Reflect'']] Public ''B''])]) =
   mset (scan_tree \<lparr>packages = []\<rparr>
           [(''src/b.rs'', nested_file [ItemEnum [derive_attr [''Component'', ''Reflect'']] Public ''B'']),
            (''src/a.rs'', nested_file [ItemStruct [derive_attr [''Reflect'', ''Component'']] Public ''A''])])"
  by (rule scan_tree_order) simp

lemma scan_tree_append: "scan_tree md (t @ u) = scan_tree md t @ scan_tree md u"
  by (simp add: scan_tree_concat)

lemma scan_tree_unresolved:
  assumes "\<And>path. path \<in> fst ` set tree \<Longrightarrow> resolve_module_path path md = None"
  shows "scan_tree md tree = []"
  using assms by (auto simp: scan_tree_concat entry_findings_def)

section \<open>Which names the scan reports\<close>

lemma entry_findings_reported:
  "x \<in> set (entry_findings md (path, f)) \<longleftrightarrow>
     (\<exists>mp. resolve_module_path path md = Some mp \<and> reported True True mp (items f) x)"
  by (cases "resolve_module_path path md")
    (auto simp: entry_findings_def intro: findings_reported reported_findings)

lemma scan_load_reported:
  "x \<in> set (scan_tree md (load_files read parse files)) \<longleftrightarrow>
     (\<exists>path f mp. path \<in> set files \<and> loaded read parse path = Some f \<and>
        resolve_module_path path md = Some mp \<and> reported True True mp (items f) x)"
proof -
  have "x \<in> set (scan_tree md (load_files read parse files)) \<longleftrightarrow>
      (\<exists>path f. (path, f) \<in> set (load_files read parse files) \<and>
         x \<in> set (entry_findings md (path, f)))"
    by (auto simp: scan_tree_concat)
  then show ?thesis
    unfolding load_files_entry entry_findings_reported by blast
qed

text \<open>
  C13.  The two loops of \<^verbatim>\<open>main\<close> together: a name is reported for a list
  of source files exactly when one of the files can be read and parsed,
  its path resolves to a module path, and the name has a derivation from
  the items of the file under that module path, with the public-only
  policy and the file as a public scope.
\<close>

theorem report_iff:
  "x \<in> set (scan_tree md (load_files read parse files)) \<longleftrightarrow>
     (\<exists>path f mp. path \<in> set files \<and> loaded read parse path = Some f \<and>
        resolve_module_path path md = Some mp \<and> reported True True mp (items f) x)"
  by (rule scan_load_reported)

text \<open>
  The report does not depend on the order in which the discovery lists
  the files, nor on how often it lists one: two lists with the same
  elements yield the same findings with the same multiplicities.
\<close>

lemma scan_load_order:
  assumes "set files = set files'"
  shows "mset (scan_tree md (load_files read parse files)) =
         mset (scan_tree md (load_files read parse files'))"
  using load_files_mset [OF assms, of read parse]
  by (simp add: scan_tree_concat mset_concat_map)

section \<open>The program as a whole\<close>

lemma main_Ok:
  "main fs read parse (Inr md) =
     Ok (scan_tree md (load_files read parse
           (collect_source_files fs ''./src'' [] @ collect_dependency_files fs md [])))"
  using collect_dependency_files_concat [of fs md "collect_source_files fs ''./src'' []"]
  by (simp add: main_def collect_dependency_files_concat)

text \<open>
  The program ends with a report exactly when the metadata is
  available: no file that cannot be read, parsed or resolved makes it
  fail.
\<close>

theorem main_reports_iff:
  "(\<exists>reflect_types. main fs read parse exec = Ok reflect_types) \<longleftrightarrow> (\<exists>md. exec = Ok md)"
  by (cases exec) (simp_all add: main_def Let_def)

end
