(* ===== verification/Machine.thy ===== *)
theory Machine
  imports Pipeline
begin

text \<open>
  The two loops of \<^verbatim>\<open>main\<close> (\<^verbatim>\<open>src/main.rs\<close>, lines 19 to 42) step by
  step.  A state holds what the loops hold between two iterations: the
  rest of the vector of source files, the module tree, the entries of the
  tree that its iterator has not yet yielded, and the vector of findings.
  A step is one iteration of a loop or the passage from one loop to the
  next.  The iterator of the hash map yields the entries in an order that
  the program does not choose, so the step of the second loop takes any of
  the remaining entries and the steps form a relation.
\<close>

section \<open>States and steps\<close>

datatype phase = Loading | Scanning | Printed

record run_state =
  phase :: phase
  files_left :: "string list"
  loaded_tree :: module_tree
  entries_left :: "(string \<times> syn_file) list"
  found :: "string list"

definition init_state :: "string list \<Rightarrow> run_state" where
  "init_state source_files =
     \<lparr>phase = Loading, files_left = source_files, loaded_tree = [], entries_left = [],
      found = []\<rparr>"

inductive step ::
  "(string \<Rightarrow> ('e, string) result) \<Rightarrow> (string \<Rightarrow> ('p, syn_file) result) \<Rightarrow> metadata \<Rightarrow>
   run_state \<Rightarrow> run_state \<Rightarrow> bool"
  for read parse md
where
  load: "phase s = Loading \<Longrightarrow> files_left s = path # rest \<Longrightarrow>
     step read parse md s
       (s\<lparr>files_left := rest, loaded_tree := load_step read parse path (loaded_tree s)\<rparr>)"
| iterate: "phase s = Loading \<Longrightarrow> files_left s = [] \<Longrightarrow>
     step read parse md s (s\<lparr>phase := Scanning, entries_left := loaded_tree s\<rparr>)"
| scan: "phase s = Scanning \<Longrightarrow> entry \<in> set (entries_left s) \<Longrightarrow>
     step read parse md s
       (s\<lparr>entries_left := remove1 entry (entries_left s),
          found := scan_step md entry (found s)\<rparr>)"
| print: "phase s = Scanning \<Longrightarrow> entries_left s = [] \<Longrightarrow>
     step read parse md s (s\<lparr>phase := Printed\<rparr>)"

text \<open>The states a step leads to, as a list; the loops of the source take the first.\<close>

definition successors ::
  "(string \<Rightarrow> ('e, string) result) \<Rightarrow> (string \<Rightarrow> ('p, syn_file) result) \<Rightarrow> metadata \<Rightarrow>
   run_state \<Rightarrow> run_state list" where
  "successors read parse md s =
     (case phase s of
        Loading \<Rightarrow>
          (case files_left s of
             [] \<Rightarrow> [s\<lparr>phase := Scanning, entries_left := loaded_tree s\<rparr>]
           | path # rest \<Rightarrow>
               [s\<lparr>files_left := rest,
                   loaded_tree := load_step read parse path (loaded_tree s)\<rparr>])
      | Scanning \<Rightarrow>
          (if entries_left s = [] then [s\<lparr>phase := Printed\<rparr>]
           else map (\<lambda>entry. s\<lparr>entries_left := remove1 entry (entries_left s),
                                     found := scan_step md entry (found s)\<rparr>)
                  (entries_left s))
      | Printed \<Rightarrow> [])"

text \<open>The work that is left: an upper bound on the number of steps to come.\<close>

definition work :: "run_state \<Rightarrow> nat" where
  "work s =
     (case phase s of
        Loading \<Rightarrow> 2 * length (files_left s) + length (loaded_tree s) + 2
      | Scanning \<Rightarrow> length (entries_left s) + 1
      | Printed \<Rightarrow> 0)"

text \<open>
  The phases in the order in which \<^verbatim>\<open>main\<close> passes through them; the order
  of the type is the order of their positions.
\<close>

fun stage :: "phase \<Rightarrow> nat" where
  "stage Loading = 0"
| "stage Scanning = 1"
| "stage Printed = 2"

lemma stage_inject [simp]: "stage p = stage q \<longleftrightarrow> p = q"
  by (cases p; cases q) simp_all

instantiation phase :: linorder
begin

definition less_eq_phase :: "phase \<Rightarrow> phase \<Rightarrow> bool" where
  "less_eq_phase p q \<longleftrightarrow> stage p \<le> stage q"

definition less_phase :: "phase \<Rightarrow> phase \<Rightarrow> bool" where
  "less_phase p q \<longleftrightarrow> stage p < stage q"

instance
  by standard (auto simp: less_eq_phase_def less_phase_def)

end

lemma phase_bounds [simp]: "Loading \<le> p" "p \<le> Printed"
  by (cases p; simp add: less_eq_phase_def)+

lemma step_successors: "step read parse md s t \<longleftrightarrow> t \<in> set (successors read parse md s)"
proof
  assume "step read parse md s t"
  then show "t \<in> set (successors read parse md s)"
    by cases (auto simp: successors_def)
next
  assume t: "t \<in> set (successors read parse md s)"
  show "step read parse md s t"
  proof (cases "phase s")
    case Loading
    with t show ?thesis
      by (cases "files_left s") (auto simp: successors_def intro: step.intros)
  next
    case Scanning
    with t show ?thesis
      by (cases "entries_left s = []") (auto simp: successors_def intro: step.intros)
  next
    case Printed
    with t show ?thesis
      by (simp add: successors_def)
  qed
qed

section \<open>The phases are passed in order\<close>

text \<open>
  A step never leads back to an earlier phase, and once the second loop
  has begun neither the vector of files nor the module tree changes: the
  loop iterates over a tree that is complete.
\<close>

lemma step_phase: "step read parse md s t \<Longrightarrow> phase s \<le> phase t"
  by (induction rule: step.induct) (simp_all add: less_eq_phase_def)

lemma steps_phase: "(step read parse md)\<^sup>*\<^sup>* s t \<Longrightarrow> phase s \<le> phase t"
  by (induction rule: rtranclp_induct) (auto dest: step_phase)

lemma step_tree_frozen:
  "step read parse md s t \<Longrightarrow> Scanning \<le> phase s \<Longrightarrow>
     loaded_tree t = loaded_tree s \<and> files_left t = files_left s"
  by (induction rule: step.induct) (simp_all add: less_eq_phase_def)

lemma steps_tree_frozen:
  "(step read parse md)\<^sup>*\<^sup>* s t \<Longrightarrow> Scanning \<le> phase s \<Longrightarrow>
     loaded_tree t = loaded_tree s \<and> files_left t = files_left s"
proof (induction rule: rtranclp_induct)
  case base
  then show ?case by simp
next
  case (step t u)
  from step.hyps(1) step.prems have "Scanning \<le> phase t"
    using steps_phase [of read parse md s t] by simp
  with step show ?case
    using step_tree_frozen [of read parse md t u] by simp
qed

section \<open>Every run ends\<close>

lemma length_alist_update: "length (AList.update k v al) \<le> Suc (length al)"
  by (induction al) auto

lemma step_work: "step read parse md s t \<Longrightarrow> work t < work s"
proof (induction rule: step.induct)
  case (load s path rest)
  have "length (load_step read parse path (loaded_tree s)) \<le> Suc (length (loaded_tree s))"
    by (simp add: load_step_loaded build_module_tree_def length_alist_update split: option.splits)
  with load show ?case
    by (simp add: work_def)
next
  case (scan s entry)
  then have "entries_left s \<noteq> []"
    by auto
  with scan show ?case
    by (simp add: work_def length_remove1)
qed (simp_all add: work_def)

lemma steps_work: "(step read parse md ^^ n) s t \<Longrightarrow> n + work t \<le> work s"
proof (induction n arbitrary: t)
  case 0
  then show ?case by simp
next
  case (Suc n)
  then obtain u where "(step read parse md ^^ n) s u" and "step read parse md u t"
    by auto
  with Suc.IH [of u] step_work [of read parse md u t] show ?case
    by simp
qed

lemma step_progress: "phase s \<noteq> Printed \<Longrightarrow> \<exists>t. step read parse md s t"
proof (cases "phase s")
  case Loading
  then show ?thesis
    by (cases "files_left s") (blast intro: step.intros)+
next
  case Scanning
  show ?thesis
  proof (cases "entries_left s")
    case Nil
    with Scanning show ?thesis by (blast intro: step.print)
  next
    case (Cons entry rest)
    then have "entry \<in> set (entries_left s)" by simp
    with Scanning show ?thesis by (blast intro: step.scan)
  qed
qed simp

lemma step_Printed: "phase s = Printed \<Longrightarrow> \<not> step read parse md s t"
  by (auto elim: step.cases)

section \<open>What holds in every state of a run\<close>

text \<open>
  The files that the first loop has dealt with, and the invariant of a
  run over the vector \<open>files\<close>: while loading, the module tree is the tree
  of the files dealt with; afterwards it is the tree of all files, the
  entries left are entries of it, and the findings made together with
  those still to be made from the entries left are the findings of the
  whole tree, as multisets.
\<close>

definition files_done :: "string list \<Rightarrow> run_state \<Rightarrow> string list" where
  "files_done files s = take (length files - length (files_left s)) files"

definition run_inv ::
  "(string \<Rightarrow> ('e, string) result) \<Rightarrow> (string \<Rightarrow> ('p, syn_file) result) \<Rightarrow> metadata \<Rightarrow>
   string list \<Rightarrow> run_state \<Rightarrow> bool" where
  "run_inv read parse md files s \<longleftrightarrow>
     files = files_done files s @ files_left s \<and>
     loaded_tree s = load_files read parse (files_done files s) \<and>
     (case phase s of
        Loading \<Rightarrow> entries_left s = [] \<and> found s = []
      | Scanning \<Rightarrow>
          files_left s = [] \<and>
          mset (found s) + mset (concat (map (entry_findings md) (entries_left s))) =
            mset (scan_tree md (loaded_tree s))
      | Printed \<Rightarrow>
          files_left s = [] \<and> entries_left s = [] \<and>
          mset (found s) = mset (scan_tree md (loaded_tree s)))"

lemma files_done_eq: "files = done @ files_left s \<Longrightarrow> files_done files s = done"
  by (simp add: files_done_def)

lemma load_files_snoc:
  "load_files read parse (ps @ [p]) = load_step read parse p (load_files read parse ps)"
  by (simp add: load_files_def)

lemma mset_findings_remove1:
  assumes "e \<in> set es"
  shows "mset (g e) + mset (concat (map g (remove1 e es))) = mset (concat (map g es))"
proof -
  from assms have "mset es = add_mset e (mset (remove1 e es))"
    by simp
  then have "mset (concat (map g es)) =
      sum_mset (image_mset (\<lambda>x. mset (g x)) (add_mset e (mset (remove1 e es))))"
    by (simp only: mset_concat_map)
  then show ?thesis
    by (simp add: mset_concat_map)
qed

lemma run_inv_init: "run_inv read parse md files (init_state files)"
  by (simp add: run_inv_def init_state_def files_done_def load_files_def)

lemma run_inv_step:
  assumes "step read parse md s t" and "run_inv read parse md files s"
  shows "run_inv read parse md files t"
  using assms
proof (induction rule: step.induct)
  case (load s path rest)
  let ?t = "s\<lparr>files_left := rest, loaded_tree := load_step read parse path (loaded_tree s)\<rparr>"
  from load have "files = (files_done files s @ [path]) @ files_left ?t"
    by (simp add: run_inv_def)
  then have "files_done files ?t = files_done files s @ [path]"
    by (rule files_done_eq)
  with load show ?case
    by (simp add: run_inv_def load_files_snoc)
next
  case (iterate s)
  then show ?case
    by (simp add: run_inv_def files_done_def scan_tree_concat)
next
  case (scan s entry)
  with mset_findings_remove1 [of entry "entries_left s" "entry_findings md"] show ?case
    by (simp add: run_inv_def files_done_def scan_step_findings ac_simps)
next
  case (print s)
  then show ?case
    by (simp add: run_inv_def files_done_def)
qed

lemma run_inv_reachable:
  assumes "(step read parse md)\<^sup>*\<^sup>* (init_state files) s"
  shows "run_inv read parse md files s"
  using assms by (induction rule: rtranclp_induct) (auto intro: run_inv_init run_inv_step)

lemma step_found: "step read parse md s t \<Longrightarrow> prefix (found s) (found t)"
  by (induction rule: step.induct) (simp_all add: scan_step_findings)

lemma printed_found:
  assumes "(step read parse md)\<^sup>*\<^sup>* (init_state files) t" and "phase t = Printed"
  shows "mset (found t) = mset (scan_tree md (load_files read parse files))"
proof -
  from assms(1) have inv: "run_inv read parse md files t"
    by (rule run_inv_reachable)
  with assms(2) have "files_left t = []"
    by (simp add: run_inv_def)
  with inv have "files_done files t = files"
    by (simp add: run_inv_def)
  with inv assms(2) show ?thesis
    by (simp add: run_inv_def)
qed

section \<open>The run of the source\<close>

definition final_state :: "module_tree \<Rightarrow> string list \<Rightarrow> run_state" where
  "final_state module_tree reflect_types =
     \<lparr>phase = Printed, files_left = [], loaded_tree = module_tree, entries_left = [],
      found = reflect_types\<rparr>"

lemma loading_run:
  "(step read parse md)\<^sup>*\<^sup>*
     \<lparr>phase = Loading, files_left = ps, loaded_tree = T, entries_left = [], found = []\<rparr>
     \<lparr>phase = Loading, files_left = [], loaded_tree = fold (load_step read parse) ps T,
        entries_left = [], found = []\<rparr>"
proof (induction ps arbitrary: T)
  case Nil
  show ?case by simp
next
  case (Cons p ps)
  have "step read parse md
      \<lparr>phase = Loading, files_left = p # ps, loaded_tree = T, entries_left = [], found = []\<rparr>
      \<lparr>phase = Loading, files_left = ps, loaded_tree = load_step read parse p T,
         entries_left = [], found = []\<rparr>"
    using step.load [of "\<lparr>phase = Loading, files_left = p # ps, loaded_tree = T,
      entries_left = [], found = []\<rparr>" p ps read parse md] by simp
  with Cons [of "load_step read parse p T"] show ?case
    by (auto intro: converse_rtranclp_into_rtranclp)
qed

lemma scanning_run:
  "(step read parse md)\<^sup>*\<^sup>*
     \<lparr>phase = Scanning, files_left = [], loaded_tree = T, entries_left = es, found = acc\<rparr>
     \<lparr>phase = Scanning, files_left = [], loaded_tree = T, entries_left = [],
        found = fold (scan_step md) es acc\<rparr>"
proof (induction es arbitrary: acc)
  case Nil
  show ?case by simp
next
  case (Cons e es)
  have "step read parse md
      \<lparr>phase = Scanning, files_left = [], loaded_tree = T, entries_left = e # es, found = acc\<rparr>
      \<lparr>phase = Scanning, files_left = [], loaded_tree = T, entries_left = es,
         found = scan_step md e acc\<rparr>"
    using step.scan [of "\<lparr>phase = Scanning, files_left = [], loaded_tree = T,
      entries_left = e # es, found = acc\<rparr>" e read parse md] by simp
  with Cons [of "scan_step md e acc"] show ?case
    by (auto intro: converse_rtranclp_into_rtranclp)
qed

lemma in_order_run:
  "(step read parse md)\<^sup>*\<^sup>* (init_state files)
     (final_state (load_files read parse files) (scan_tree md (load_files read parse files)))"
proof -
  let ?T = "load_files read parse files"
  have "(step read parse md)\<^sup>*\<^sup>* (init_state files)
      \<lparr>phase = Loading, files_left = [], loaded_tree = ?T, entries_left = [], found = []\<rparr>"
    using loading_run [of read parse md files "[]"] by (simp add: init_state_def load_files_def)
  also have "step read parse md
      \<lparr>phase = Loading, files_left = [], loaded_tree = ?T, entries_left = [], found = []\<rparr>
      \<lparr>phase = Scanning, files_left = [], loaded_tree = ?T, entries_left = ?T, found = []\<rparr>"
    using step.iterate [of "\<lparr>phase = Loading, files_left = [], loaded_tree = ?T,
      entries_left = [], found = []\<rparr>" read parse md] by simp
  also have "(step read parse md)\<^sup>*\<^sup>*
      \<lparr>phase = Scanning, files_left = [], loaded_tree = ?T, entries_left = ?T, found = []\<rparr>
      \<lparr>phase = Scanning, files_left = [], loaded_tree = ?T, entries_left = [],
         found = scan_tree md ?T\<rparr>"
    using scanning_run [of read parse md ?T ?T "[]"] by (simp add: scan_tree_def)
  also have "step read parse md
      \<lparr>phase = Scanning, files_left = [], loaded_tree = ?T, entries_left = [],
         found = scan_tree md ?T\<rparr>
      (final_state ?T (scan_tree md ?T))"
    using step.print [of "\<lparr>phase = Scanning, files_left = [], loaded_tree = ?T,
      entries_left = [], found = scan_tree md ?T\<rparr>" read parse md]
    by (simp add: final_state_def)
  finally show ?thesis .
qed

section \<open>A run on the example project\<close>

text \<open>
  Two files of the dependency of the example project, loaded in order and
  scanned in the reverse order: the findings come out reversed.
\<close>

definition marker_file :: syn_file where
  "marker_file =
     nested_file [ItemStruct [derive_attr [''Reflect'', ''Component'']] Public ''Marker'']"

definition example_tree :: module_tree where
  "example_tree = [(''/r/bevy_ui/a.rs'', marker_file), (''/r/bevy_ui/b.rs'', marker_file)]"

lemma example_load_step [simp]:
  "load_step example_read example_parse p T = AList.update p marker_file T"
  by (simp add: load_step_def example_read_def example_parse_def build_module_tree_def
      marker_file_def)

lemma example_scan_step [simp]:
  "scan_step example_metadata (''/r/bevy_ui/a.rs'', marker_file) acc =
     acc @ [''bevy_ui::a::Marker'']"
  "scan_step example_metadata (''/r/bevy_ui/b.rs'', marker_file) acc =
     acc @ [''bevy_ui::b::Marker'']"
proof -
  have "resolve_module_path ''/r/bevy_ui/a.rs'' example_metadata = Some ''bevy_ui::a''"
    and "resolve_module_path ''/r/bevy_ui/b.rs'' example_metadata = Some ''bevy_ui::b''"
    by (simp_all add: example_metadata_def rust_eval)
  then show "scan_step example_metadata (''/r/bevy_ui/a.rs'', marker_file) acc =
      acc @ [''bevy_ui::a::Marker'']"
    and "scan_step example_metadata (''/r/bevy_ui/b.rs'', marker_file) acc =
      acc @ [''bevy_ui::b::Marker'']"
    by (simp_all add: scan_step_findings entry_findings_def marker_file_def findings_def
        reportable_def detection_eval format_qualified_def)
qed

lemma example_main:
  "main example_project example_read example_parse (Ok example_metadata) =
     Ok [''bevy_ui::src::lib::Marker'']"
proof -
  have "resolve_module_path ''./src/main.rs'' example_metadata = None"
    and "resolve_module_path ''/r/bevy_ui/src/lib.rs'' example_metadata = Some ''bevy_ui::src::lib''"
    by (simp_all add: example_metadata_def rust_eval)
  then have "scan_tree example_metadata (load_files example_read example_parse
      [''./src/main.rs'', ''/r/bevy_ui/src/lib.rs'']) = [''bevy_ui::src::lib::Marker'']"
    by (simp add: scan_tree_concat load_files_def entry_findings_def marker_file_def
        findings_def reportable_def detection_eval format_qualified_def)
  then show ?thesis
    by (simp add: main_Ok example_discovery)
qed

lemma example_scanning:
  "(step example_read example_parse example_metadata)\<^sup>*\<^sup>*
     (init_state [''/r/bevy_ui/a.rs'', ''/r/bevy_ui/b.rs''])
     \<lparr>phase = Scanning, files_left = [], loaded_tree = example_tree,
        entries_left = example_tree, found = []\<rparr>"
proof -
  have "(step example_read example_parse example_metadata)\<^sup>*\<^sup>*
      (init_state [''/r/bevy_ui/a.rs'', ''/r/bevy_ui/b.rs''])
      \<lparr>phase = Loading, files_left = [], loaded_tree = example_tree, entries_left = [],
         found = []\<rparr>"
    using loading_run [of example_read example_parse example_metadata
        "[''/r/bevy_ui/a.rs'', ''/r/bevy_ui/b.rs'']" "[]"]
    by (simp add: init_state_def example_tree_def)
  also have "step example_read example_parse example_metadata
      \<lparr>phase = Loading, files_left = [], loaded_tree = example_tree, entries_left = [],
         found = []\<rparr>
      \<lparr>phase = Scanning, files_left = [], loaded_tree = example_tree,
         entries_left = example_tree, found = []\<rparr>"
    by (simp add: step_successors successors_def)
  finally show ?thesis .
qed

lemma example_reversed_run:
  "(step example_read example_parse example_metadata)\<^sup>*\<^sup>*
     (init_state [''/r/bevy_ui/a.rs'', ''/r/bevy_ui/b.rs''])
     (final_state example_tree [''bevy_ui::b::Marker'', ''bevy_ui::a::Marker''])"
proof -
  note example_scanning
  also have "step example_read example_parse example_metadata
      \<lparr>phase = Scanning, files_left = [], loaded_tree = example_tree,
         entries_left = example_tree, found = []\<rparr>
      \<lparr>phase = Scanning, files_left = [], loaded_tree = example_tree,
         entries_left = [(''/r/bevy_ui/a.rs'', marker_file)],
         found = [''bevy_ui::b::Marker'']\<rparr>"
    by (simp add: step_successors successors_def example_tree_def)
  also have "step example_read example_parse example_metadata
      \<lparr>phase = Scanning, files_left = [], loaded_tree = example_tree,
         entries_left = [(''/r/bevy_ui/a.rs'', marker_file)],
         found = [''bevy_ui::b::Marker'']\<rparr>
      \<lparr>phase = Scanning, files_left = [], loaded_tree = example_tree, entries_left = [],
         found = [''bevy_ui::b::Marker'', ''bevy_ui::a::Marker'']\<rparr>"
    by (simp add: step_successors successors_def)
  also have "step example_read example_parse example_metadata
      \<lparr>phase = Scanning, files_left = [], loaded_tree = example_tree, entries_left = [],
         found = [''bevy_ui::b::Marker'', ''bevy_ui::a::Marker'']\<rparr>
      (final_state example_tree [''bevy_ui::b::Marker'', ''bevy_ui::a::Marker''])"
    by (simp add: step_successors successors_def final_state_def)
  finally show ?thesis .
qed

section \<open>Runs and the program\<close>

lemma steps_completes: "\<exists>n t. (step read parse md ^^ n) s t \<and> phase t = Printed \<and> n \<le> work s"
proof (induction "work s" arbitrary: s rule: less_induct)
  case less
  show ?case
  proof (cases "phase s = Printed")
    case True
    then have "(step read parse md ^^ 0) s s \<and> phase s = Printed \<and> 0 \<le> work s"
      by simp
    then show ?thesis by blast
  next
    case False
    then obtain u where u: "step read parse md s u"
      using step_progress by blast
    then have w: "work u < work s"
      by (rule step_work)
    then obtain n t where "(step read parse md ^^ n) u t" and "phase t = Printed"
      and "n \<le> work u"
      using less by blast
    from u this(1) have "(step read parse md ^^ Suc n) s t"
      by (rule relpowp_Suc_I2)
    with w \<open>phase t = Printed\<close> \<open>n \<le> work u\<close>
    have "(step read parse md ^^ Suc n) s t \<and> phase t = Printed \<and> Suc n \<le> work s"
      by simp
    then show ?thesis by blast
  qed
qed

text \<open>
  C12.  A run that has reached the end has loaded the tree of all files,
  and its findings are those of the program up to their order: whatever
  order the iterator of the hash map takes, the report holds the same
  names the same number of times.
\<close>

theorem run_outcome:
  assumes "(step read parse md)\<^sup>*\<^sup>* (init_state files) t" and "phase t = Printed"
  shows "loaded_tree t = load_files read parse files \<and>
         mset (found t) = mset (scan_tree md (load_files read parse files))"
proof -
  from assms(1) have "run_inv read parse md files t"
    by (rule run_inv_reachable)
  with assms(2) have "files = files_done files t" and "loaded_tree t = load_files read parse files"
    and "mset (found t) = mset (scan_tree md (loaded_tree t))"
    by (auto simp: run_inv_def)
  then show ?thesis
    by simp
qed

text \<open>
  The witness is the reversed run of the example: its findings are those
  of the program in the other order.
\<close>

theorem run_outcome_witness:
  "loaded_tree (final_state example_tree [''bevy_ui::b::Marker'', ''bevy_ui::a::Marker'']) =
     load_files example_read example_parse [''/r/bevy_ui/a.rs'', ''/r/bevy_ui/b.rs''] \<and>
   mset [''bevy_ui::b::Marker'', ''bevy_ui::a::Marker''] =
     mset (scan_tree example_metadata
             (load_files example_read example_parse [''/r/bevy_ui/a.rs'', ''/r/bevy_ui/b.rs'']))"
  using run_outcome [OF example_reversed_run] by (simp add: final_state_def)

text \<open>
  C18.  Every run ends: a run over \<open>n\<close> source files has at most
  \<open>2 * n + 2\<close> steps.
\<close>

theorem every_run_ends:
  assumes "(step read parse md ^^ n) (init_state files) t"
  shows "n \<le> 2 * length files + 2"
  using steps_work [OF assms] by (simp add: work_def init_state_def)

text \<open>With no source file the run has two steps, so the bound is met.\<close>

theorem every_run_ends_witness:
  "(step example_read example_parse example_metadata ^^ 2) (init_state []) (final_state [] []) \<and>
   (2::nat) \<le> 2 * length ([]::string list) + 2"
proof -
  have "step example_read example_parse example_metadata (init_state [])
      \<lparr>phase = Scanning, files_left = [], loaded_tree = [], entries_left = [], found = []\<rparr>"
    and "step example_read example_parse example_metadata
      \<lparr>phase = Scanning, files_left = [], loaded_tree = [], entries_left = [], found = []\<rparr>
      (final_state [] [])"
    by (simp_all add: step_successors successors_def init_state_def final_state_def)
  then have run: "(step example_read example_parse example_metadata ^^ 2) (init_state [])
      (final_state [] [])"
    by (auto simp: numeral_2_eq_2)
  from every_run_ends [OF run] run show ?thesis
    by simp
qed

text \<open>
  C19.  No state is stuck before the end, and from every state the end
  is reached within the work that is left.
\<close>

theorem run_completes:
  "\<exists>n t. (step read parse md ^^ n) s t \<and> phase t = Printed \<and> n \<le> work s"
  by (rule steps_completes)

text \<open>
  C24.  The invariant of a run holds in every state that a run over the
  files reaches; in particular the module tree is at every moment the tree
  that the loader makes of the files dealt with.
\<close>

theorem run_invariant:
  assumes "(step read parse md)\<^sup>*\<^sup>* (init_state files) s"
  shows "run_inv read parse md files s"
  using assms by (rule run_inv_reachable)

theorem run_invariant_witness:
  "run_inv example_read example_parse example_metadata [''/r/bevy_ui/a.rs'', ''/r/bevy_ui/b.rs'']
     \<lparr>phase = Scanning, files_left = [], loaded_tree = example_tree,
        entries_left = example_tree, found = []\<rparr>"
  using example_scanning by (rule run_invariant)

text \<open>
  Findings are only ever appended: the findings of a state are a
  prefix of the findings of every later state.
\<close>

theorem findings_never_removed:
  assumes "(step read parse md)\<^sup>*\<^sup>* s t"
  shows "prefix (found s) (found t)"
  using assms
  by (induction rule: rtranclp_induct) (auto dest: step_found intro: prefix_order.trans)

theorem findings_never_removed_witness:
  "prefix (found (init_state [''/r/bevy_ui/a.rs'', ''/r/bevy_ui/b.rs'']))
     (found (final_state example_tree [''bevy_ui::b::Marker'', ''bevy_ui::a::Marker'']))"
  using example_reversed_run by (rule findings_never_removed)

text \<open>
  C23.  What \<^verbatim>\<open>main\<close> returns is the result of a run: the one that
  takes the source files and the entries of the module tree in the order
  of their lists.
\<close>

theorem main_is_a_run:
  assumes "main fs read parse (Ok md) = Ok reflect_types"
  shows "\<exists>module_tree.
           (step read parse md)\<^sup>*\<^sup>*
             (init_state (collect_dependency_files fs md (collect_source_files fs ''./src'' [])))
             (final_state module_tree reflect_types)"
proof -
  let ?files = "collect_dependency_files fs md (collect_source_files fs ''./src'' [])"
  from assms have "reflect_types = scan_tree md (load_files read parse ?files)"
    by (simp add: main_def)
  with in_order_run [of read parse md ?files] show ?thesis
    by blast
qed

theorem main_is_a_run_witness:
  "\<exists>module_tree.
     (step example_read example_parse example_metadata)\<^sup>*\<^sup>*
       (init_state (collect_dependency_files example_project example_metadata
                      (collect_source_files example_project ''./src'' [])))
       (final_state module_tree [''bevy_ui::src::lib::Marker''])"
  by (rule main_is_a_run) (rule example_main)

text \<open>
  C14.  Two complete runs report the same findings with the same
  multiplicities, whatever the order in which the hash map yields its
  entries, the order in which the discovery has listed the files, and
  the number of times it has listed each.
\<close>

theorem reruns_agree:
  assumes "(step read parse md)\<^sup>*\<^sup>* (init_state files) t" and "phase t = Printed"
    and "(step read parse md)\<^sup>*\<^sup>* (init_state files') t'" and "phase t' = Printed"
    and "set files = set files'"
  shows "mset (found t) = mset (found t')"
  using printed_found [OF assms(1,2)] printed_found [OF assms(3,4)] scan_load_order [OF assms(5)]
  by simp

text \<open>
  The witness compares the run that scans \<^verbatim>\<open>b.rs\<close> before \<^verbatim>\<open>a.rs\<close>
  with the run of the source on a discovery that lists \<^verbatim>\<open>b.rs\<close> first
  and \<^verbatim>\<open>a.rs\<close> twice.
\<close>

theorem reruns_agree_witness:
  "mset [''bevy_ui::b::Marker'', ''bevy_ui::a::Marker''] =
   mset (scan_tree example_metadata
           (load_files example_read example_parse
              [''/r/bevy_ui/b.rs'', ''/r/bevy_ui/a.rs'', ''/r/bevy_ui/a.rs'']))"
proof -
  let ?files = "[''/r/bevy_ui/b.rs'', ''/r/bevy_ui/a.rs'', ''/r/bevy_ui/a.rs'']"
  have "set [''/r/bevy_ui/a.rs'', ''/r/bevy_ui/b.rs''] = set ?files"
    by auto
  from reruns_agree [OF example_reversed_run _
      in_order_run [of example_read example_parse example_metadata ?files] _ this]
  show ?thesis
    by (simp add: final_state_def)
qed

end
