(* ===== verification/Unicode.thy ===== *)
theory Unicode
  imports Utf8
begin

text \<open>
  The characters of a string.  A Rust \<^verbatim>\<open>char\<close> is a Unicode scalar
  value, a number below \<^verbatim>\<open>0x110000\<close> that is no surrogate; a string is
  the concatenation of the encodings of its characters.  The theory
  defines the decoder behind \<^verbatim>\<open>str::chars\<close> (\<^verbatim>\<open>next_code_point\<close>) and the
  encoder \<^verbatim>\<open>char::encode_utf8\<close> as the standard library writes them, the
  masks and shifts as remainders, quotients and products of natural
  numbers, and shows that they are inverse to each other on the encoded
  characters of \<^theory_text>\<open>Utf8\<close>.  It follows that the validation by chunks
  accepts exactly the encodings of sequences of scalar values.  The
  \<^verbatim>\<open>Debug\<close> format of a string, which \<^verbatim>\<open>src/main.rs\<close> prints at line 42,
  is defined on these characters.
\<close>

section \<open>Scalar values\<close>

definition is_scalar_value :: "nat \<Rightarrow> bool" where
  "is_scalar_value n \<longleftrightarrow> n < 0xD800 \<or> (0xE000 \<le> n \<and> n < 0x110000)"

text \<open>The number of bytes of the encoding of a character (\<^verbatim>\<open>char::len_utf8\<close>).\<close>

definition len_utf8 :: "nat \<Rightarrow> nat" where
  "len_utf8 code =
     (if code < 0x80 then 1 else if code < 0x800 then 2 else if code < 0x10000 then 3 else 4)"

section \<open>Decoder and encoder\<close>

text \<open>
  \<^verbatim>\<open>utf8_acc_cont_byte\<close> appends the six low bits of a continuation
  byte to the bits read so far.  \<^verbatim>\<open>next_code_point\<close> reads one character
  from the bytes of its encoding: the first byte gives its low five bits
  (\<^verbatim>\<open>utf8_first_byte(x, 2)\<close>), of which four count in an encoding of
  three bytes and three in one of four.
\<close>

definition utf8_acc_cont_byte :: "nat \<Rightarrow> char \<Rightarrow> nat" where
  "utf8_acc_cont_byte ch byte = ch * 64 + of_char byte mod 64"

fun next_code_point :: "string \<Rightarrow> nat" where
  "next_code_point [x] = of_char x"
| "next_code_point [x, y] = utf8_acc_cont_byte (of_char x mod 32) y"
| "next_code_point [x, y, z] =
     (of_char x mod 32) * 4096 + utf8_acc_cont_byte (of_char y mod 64) z"
| "next_code_point [x, y, z, w] =
     (of_char x mod 32 mod 8) * 262144 +
       utf8_acc_cont_byte (utf8_acc_cont_byte (of_char y mod 64) z) w"
| "next_code_point bs = 0"

text \<open>
  \<^verbatim>\<open>encode_utf8\<close>: the tag of the length in the high bits of the first
  byte, the tag \<^verbatim>\<open>0x80\<close> in every other byte, six bits of the character
  in each.
\<close>

definition encode_utf8 :: "nat \<Rightarrow> string" where
  "encode_utf8 code =
     (if len_utf8 code = 1 then [char_of code]
      else if len_utf8 code = 2
      then [char_of (0xC0 + code div 64 mod 32), char_of (0x80 + code mod 64)]
      else if len_utf8 code = 3
      then [char_of (0xE0 + code div 4096 mod 16), char_of (0x80 + code div 64 mod 64),
            char_of (0x80 + code mod 64)]
      else [char_of (0xF0 + code div 262144 mod 8), char_of (0x80 + code div 4096 mod 64),
            char_of (0x80 + code div 64 mod 64), char_of (0x80 + code mod 64)])"

text \<open>
  The characters of a string (\<^verbatim>\<open>str::chars\<close>) and the string of a
  sequence of characters (\<^verbatim>\<open>String::from_iter\<close>).  The iterator reads
  one character after the other with \<^verbatim>\<open>next_code_point\<close>, which takes as
  many bytes as the first byte asks for and trusts that they are there: a
  string is valid.  On a sequence of bytes that is not valid, which is no
  \<^verbatim>\<open>str\<close>, the model reads what is left where bytes are missing.
\<close>

definition code_point_width :: "char \<Rightarrow> nat" where
  "code_point_width x =
     (if (of_char x :: nat) < 0x80 then 1
      else if (of_char x :: nat) < 0xE0 then 2
      else if (of_char x :: nat) < 0xF0 then 3
      else 4)"

function chars :: "string \<Rightarrow> nat list" where
  "chars [] = []"
| "chars (x # s) =
     next_code_point (take (code_point_width x) (x # s)) #
     chars (drop (code_point_width x) (x # s))"
  by pat_completeness auto
termination
  by (relation "measure length") (auto simp: code_point_width_def)

declare chars.simps(2) [simp del]

definition string_of_chars :: "nat list \<Rightarrow> string" where
  "string_of_chars cs = concat (map encode_utf8 cs)"

section \<open>Arithmetic of the bit fields\<close>

text \<open>
  A byte between \<open>k\<close> and \<open>k + m\<close>, with \<open>k\<close> a multiple of \<open>m\<close>, is the
  tag \<open>k\<close> and a field below \<open>m\<close>; the lemmas name the fields of the bytes
  of an encoded character, so that what remains is arithmetic on digits
  to the base 64.
\<close>

lemma mod_window:
  fixes x :: nat
  assumes "k \<le> x" and "x < k + m" and "k mod m = 0"
  shows "x mod m = x - k"
proof -
  from assms(1) have "x mod m = (k + (x - k)) mod m"
    by simp
  also have "\<dots> = (k mod m + (x - k)) mod m"
    by (simp add: mod_add_left_eq)
  also from assms have "\<dots> = x - k"
    by simp
  finally show ?thesis .
qed

lemma char_eq_of_char: "x = y \<longleftrightarrow> (of_char x :: nat) = of_char y"
  by (metis char_of_char)

lemma cont_bits: "is_cont b \<Longrightarrow> (of_char b :: nat) mod 64 = of_char b - 128"
  by (rule mod_window) (simp_all add: is_cont_def)

lemma char_of_window: "k \<le> (of_char b :: nat) \<Longrightarrow> char_of (k + (of_char b - k)) = b"
  by simp

lemma of_char_of_small: "n < 256 \<Longrightarrow> (of_char (char_of n) :: nat) = n"
  by simp

lemma div_4096: "(n :: nat) div 4096 = n div 64 div 64"
  by (simp add: div_mult2_eq)

lemma div_262144: "(n :: nat) div 262144 = n div 64 div 64 div 64"
  by (simp add: div_mult2_eq)


lemma width_bounds:
  "utf8_char_width x = 1 \<longleftrightarrow> (of_char x :: nat) < 128"
  "utf8_char_width x = 2 \<longleftrightarrow> 194 \<le> (of_char x :: nat) \<and> (of_char x :: nat) \<le> 223"
  "utf8_char_width x = 3 \<longleftrightarrow> 224 \<le> (of_char x :: nat) \<and> (of_char x :: nat) \<le> 239"
  "utf8_char_width x = 4 \<longleftrightarrow> 240 \<le> (of_char x :: nat) \<and> (of_char x :: nat) \<le> 244"
  by (auto simp: utf8_char_width_def Let_def)

lemma width_one: "utf8_char_width x = Suc 0 \<longleftrightarrow> is_ascii x"
  using width_bounds(1) [of x] by (simp add: is_ascii_def)

lemma cont_digit:
  assumes "is_cont y"
  obtains b where "b < 64" and "(of_char y :: nat) = 128 + b" and "char_of (128 + b) = y"
    and "(of_char y :: nat) mod 64 = b"
proof
  from assms have y: "128 \<le> (of_char y :: nat)" "(of_char y :: nat) < 192"
    by (simp_all add: is_cont_def)
  then show "(of_char y :: nat) - 128 < 64" and "(of_char y :: nat) = 128 + (of_char y - 128)"
    by linarith+
  from y show "char_of (128 + ((of_char y :: nat) - 128)) = y"
    by simp
  from assms show "(of_char y :: nat) mod 64 = of_char y - 128"
    by (rule cont_bits)
qed

lemma lead_digit:
  assumes "k \<le> (of_char x :: nat)" and "(of_char x :: nat) < k + m" and "k mod m = 0"
  obtains a where "(of_char x :: nat) = k + a" and "a < m" and "char_of (k + a) = x"
    and "(of_char x :: nat) mod m = a"
proof
  from assms show "(of_char x :: nat) = k + (of_char x - k)" and "(of_char x :: nat) - k < m"
    by linarith+
  from assms show "char_of (k + ((of_char x :: nat) - k)) = x"
    by simp
  from assms show "(of_char x :: nat) mod m = of_char x - k"
    by (rule mod_window)
qed

lemma digit_step:
  fixes q c :: nat
  assumes "c < 64"
  shows "(q * 64 + c) div 64 = q" and "(q * 64 + c) mod 64 = c"
  using assms by simp_all

lemma two_bytes:
  assumes "utf8_char_width x = 2" and "is_cont y"
  obtains a b where "2 \<le> a" and "a < 32" and "b < 64"
    and "char_of (192 + a) = x" and "char_of (128 + b) = y"
    and "next_code_point [x, y] = a * 64 + b"
proof -
  from assms(1) have "192 \<le> (of_char x :: nat)" "(of_char x :: nat) < 192 + 32"
    by (simp_all add: width_bounds)
  then obtain a where a: "(of_char x :: nat) = 192 + a" "a < 32" "char_of (192 + a) = x"
      "(of_char x :: nat) mod 32 = a"
    by (rule lead_digit) simp
  from assms(2) obtain b where b: "b < 64" "char_of (128 + b) = y" "(of_char y :: nat) mod 64 = b"
    by (rule cont_digit)
  from assms(1) a(1) have "2 \<le> a"
    by (simp add: width_bounds)
  with a b that [of a b] show thesis
    by (simp add: utf8_acc_cont_byte_def)
qed

lemma encode_two:
  assumes "2 \<le> a" and "a < 32" and "b < 64"
  shows "encode_utf8 (a * 64 + b) = [char_of (192 + a), char_of (128 + b)]"
    and "128 \<le> a * 64 + b" and "a * 64 + b < 2048"
  using assms by (simp_all add: encode_utf8_def len_utf8_def)


lemma three_bytes:
  assumes "utf8_char_width x = 3" and "second_of_three x y" and "is_cont z"
  obtains a b c where "a < 16" and "b < 64" and "c < 64"
    and "a = 0 \<longrightarrow> 32 \<le> b" and "a = 13 \<longrightarrow> b < 32"
    and "char_of (224 + a) = x" and "char_of (128 + b) = y" and "char_of (128 + c) = z"
    and "next_code_point [x, y, z] = (a * 64 + b) * 64 + c"
proof -
  from assms(1) have "224 \<le> (of_char x :: nat)" "(of_char x :: nat) < 224 + 16"
    by (simp_all add: width_bounds)
  then obtain a where a: "(of_char x :: nat) = 224 + a" "a < 16" "char_of (224 + a) = x"
      "(of_char x :: nat) mod 16 = a"
    by (rule lead_digit) simp
  from a(1,2) have x: "(of_char x :: nat) mod 32 = a"
    using mod_window [of 224 "of_char x" 32] by simp
  from assms(2) have "is_cont y"
    by (auto simp: second_of_three_def is_cont_def Let_def)
  then obtain b where b: "b < 64" "(of_char y :: nat) = 128 + b" "char_of (128 + b) = y"
      "(of_char y :: nat) mod 64 = b"
    by (rule cont_digit)
  from assms(3) obtain c where c: "c < 64" "char_of (128 + c) = z" "(of_char z :: nat) mod 64 = c"
    by (rule cont_digit)
  from assms(2) a(1) b(2) have "a = 0 \<longrightarrow> 32 \<le> b" "a = 13 \<longrightarrow> b < 32"
    by (auto simp: second_of_three_def Let_def)
  with a x b c that [of a b c] show thesis
    by (simp add: utf8_acc_cont_byte_def)
qed

lemma encode_three:
  assumes "a < 16" and "b < 64" and "c < 64" and "a = 0 \<longrightarrow> 32 \<le> b"
  shows "encode_utf8 ((a * 64 + b) * 64 + c) =
           [char_of (224 + a), char_of (128 + b), char_of (128 + c)]"
    and "2048 \<le> (a * 64 + b) * 64 + c" and "(a * 64 + b) * 64 + c < 65536"
proof -
  from assms show low: "2048 \<le> (a * 64 + b) * 64 + c"
    by (cases "a = 0") simp_all
  from assms show high: "(a * 64 + b) * 64 + c < 65536"
    by simp
  define n where "n = (a * 64 + b) * 64 + c"
  from assms have "n mod 64 = c" and "n div 64 mod 64 = b" and "n div 4096 mod 16 = a"
    by (simp_all only: n_def div_4096 digit_step mod_less)
  moreover from low high have "len_utf8 n = 3"
    by (simp add: len_utf8_def n_def)
  ultimately have "encode_utf8 n = [char_of (224 + a), char_of (128 + b), char_of (128 + c)]"
    by (simp add: encode_utf8_def)
  then show "encode_utf8 ((a * 64 + b) * 64 + c) =
      [char_of (224 + a), char_of (128 + b), char_of (128 + c)]"
    by (simp only: n_def)
qed

lemma four_bytes:
  assumes "utf8_char_width x = 4" and "second_of_four x y" and "is_cont z" and "is_cont w"
  obtains a b c d where "a < 5" and "b < 64" and "c < 64" and "d < 64"
    and "a = 0 \<longrightarrow> 16 \<le> b" and "a = 4 \<longrightarrow> b < 16"
    and "char_of (240 + a) = x" and "char_of (128 + b) = y" and "char_of (128 + c) = z"
    and "char_of (128 + d) = w"
    and "next_code_point [x, y, z, w] = ((a * 64 + b) * 64 + c) * 64 + d"
proof -
  from assms(1) have "240 \<le> (of_char x :: nat)" "(of_char x :: nat) < 240 + 8"
    by (simp_all add: width_bounds)
  then obtain a where a: "(of_char x :: nat) = 240 + a" "a < 8" "char_of (240 + a) = x"
      "(of_char x :: nat) mod 8 = a"
    by (rule lead_digit) simp
  from assms(1) a(1) have a5: "a < 5"
    by (simp add: width_bounds)
  have x: "(of_char x :: nat) mod 32 mod 8 = a"
    using a(4) by (simp add: mod_mod_cancel)
  from assms(2) have "is_cont y"
    by (auto simp: second_of_four_def is_cont_def Let_def)
  then obtain b where b: "b < 64" "(of_char y :: nat) = 128 + b" "char_of (128 + b) = y"
      "(of_char y :: nat) mod 64 = b"
    by (rule cont_digit)
  from assms(3) obtain c where c: "c < 64" "char_of (128 + c) = z" "(of_char z :: nat) mod 64 = c"
    by (rule cont_digit)
  from assms(4) obtain d where d: "d < 64" "char_of (128 + d) = w" "(of_char w :: nat) mod 64 = d"
    by (rule cont_digit)
  from assms(2) a(1) b(2) have "a = 0 \<longrightarrow> 16 \<le> b" "a = 4 \<longrightarrow> b < 16"
    by (auto simp: second_of_four_def Let_def)
  with a a5 x b c d that [of a b c d] show thesis
    by (simp add: utf8_acc_cont_byte_def)
qed

lemma encode_four:
  assumes "a < 5" and "b < 64" and "c < 64" and "d < 64" and "a = 0 \<longrightarrow> 16 \<le> b"
  shows "encode_utf8 (((a * 64 + b) * 64 + c) * 64 + d) =
           [char_of (240 + a), char_of (128 + b), char_of (128 + c), char_of (128 + d)]"
    and "65536 \<le> ((a * 64 + b) * 64 + c) * 64 + d"
proof -
  from assms show low: "65536 \<le> ((a * 64 + b) * 64 + c) * 64 + d"
    by (cases "a = 0") simp_all
  define n where "n = ((a * 64 + b) * 64 + c) * 64 + d"
  from assms have "a < 8"
    by simp
  with assms have "n mod 64 = d" and "n div 64 mod 64 = c" and "n div 4096 mod 64 = b"
    and "n div 262144 mod 8 = a"
    by (simp_all only: n_def div_4096 div_262144 digit_step mod_less)
  moreover from low have "len_utf8 n = 4"
    by (simp add: len_utf8_def n_def)
  ultimately have "encode_utf8 n =
      [char_of (240 + a), char_of (128 + b), char_of (128 + c), char_of (128 + d)]"
    by (simp add: encode_utf8_def)
  then show "encode_utf8 (((a * 64 + b) * 64 + c) * 64 + d) =
      [char_of (240 + a), char_of (128 + b), char_of (128 + c), char_of (128 + d)]"
    by (simp only: n_def)
qed


text \<open>
  Whatever the bytes are, the decoder stays below \<open>2\<^sup>2\<^sup>1\<close>: the fields
  are cut to their widths before they are put together, so the sums of the
  model are the results of the shifts and masks on 32 bits, where nothing
  is carried away.
\<close>

lemma next_code_point_less: "next_code_point bs < 2097152"
proof -
  have m: "(of_char c :: nat) mod 64 < 64" "(of_char c :: nat) mod 32 < 32"
    "(of_char c :: nat) mod 32 mod 8 < 8" "(of_char c :: nat) < 256" for c
    by simp_all
  show ?thesis
  proof (cases bs rule: next_code_point.cases)
    case (1 x)
    with less_trans [OF m(4) [of x], of 2097152] show ?thesis by simp
  next
    case (2 x y)
    with m(2) [of x] m(1) [of y] show ?thesis
      by (simp add: utf8_acc_cont_byte_def)
  next
    case (3 x y z)
    with m(2) [of x] m(1) [of y] m(1) [of z] show ?thesis
      by (simp add: utf8_acc_cont_byte_def)
  next
    case (4 x y z w)
    with m(3) [of x] m(1) [of y] m(1) [of z] m(1) [of w] show ?thesis
      by (simp add: utf8_acc_cont_byte_def)
  qed simp_all
qed

text \<open>The ranges that the second byte excludes are the surrogates and what lies beyond.\<close>

lemma three_scalar:
  assumes "a < 16" and "b < 64" and "c < 64" and "a = 13 \<longrightarrow> b < 32"
  shows "is_scalar_value ((a * 64 + b) * 64 + c)"
proof -
  from assms consider "a \<le> 12" | "a = 13" "b < 32" | "14 \<le> a"
    by linarith
  then show ?thesis
    using assms by cases (simp_all add: is_scalar_value_def)
qed

lemma four_scalar:
  assumes "a < 5" and "b < 64" and "c < 64" and "d < 64"
    and "a = 0 \<longrightarrow> 16 \<le> b" and "a = 4 \<longrightarrow> b < 16"
  shows "is_scalar_value (((a * 64 + b) * 64 + c) * 64 + d)"
proof -
  from assms consider "a \<le> 3" | "a = 4" "b < 16"
    by linarith
  then show ?thesis
    using assms encode_four(2) [of a b c d] by cases (simp_all add: is_scalar_value_def)
qed

section \<open>Decoding, then encoding\<close>

text \<open>
  The bytes of an encoded character decode to a scalar value, and the
  encoder returns the bytes.
\<close>

lemma scalar_bytes_cases [consumes 1, case_names one two three four]:
  assumes "scalar_bytes bs"
  obtains x where "bs = [x]" and "is_ascii x"
  | x y where "bs = [x, y]" and "utf8_char_width x = 2" and "is_cont y"
  | x y z where "bs = [x, y, z]" and "utf8_char_width x = 3" and "second_of_three x y"
      and "is_cont z"
  | x y z w where "bs = [x, y, z, w]" and "utf8_char_width x = 4" and "second_of_four x y"
      and "is_cont z" and "is_cont w"
  using assms by (cases bs rule: scalar_bytes.cases) (simp_all add: width_one)

lemma encode_next_code_point:
  assumes "scalar_bytes bs"
  shows "encode_utf8 (next_code_point bs) = bs"
  using assms
proof (cases rule: scalar_bytes_cases)
  case (one x)
  then show ?thesis
    by (simp add: encode_utf8_def len_utf8_def is_ascii_def)
next
  case (two x y)
  from two(2,3) obtain a b where "2 \<le> a" "a < 32" "b < 64"
    "char_of (192 + a) = x" "char_of (128 + b) = y" "next_code_point [x, y] = a * 64 + b"
    by (rule two_bytes)
  with two(1) encode_two(1) [of a b] show ?thesis
    by simp
next
  case (three x y z)
  from three(2-4) obtain a b c where "a < 16" "b < 64" "c < 64" "a = 0 \<longrightarrow> 32 \<le> b"
    "char_of (224 + a) = x" "char_of (128 + b) = y" "char_of (128 + c) = z"
    "next_code_point [x, y, z] = (a * 64 + b) * 64 + c"
    by (rule three_bytes)
  with three(1) encode_three(1) [of a b c] show ?thesis
    by simp
next
  case (four x y z w)
  from four(2-5) obtain a b c d where "a < 5" "b < 64" "c < 64" "d < 64" "a = 0 \<longrightarrow> 16 \<le> b"
    "char_of (240 + a) = x" "char_of (128 + b) = y" "char_of (128 + c) = z"
    "char_of (128 + d) = w"
    "next_code_point [x, y, z, w] = ((a * 64 + b) * 64 + c) * 64 + d"
    by (rule four_bytes)
  with four(1) encode_four(1) [of a b c d] show ?thesis
    by simp
qed

lemma is_scalar_value_next_code_point:
  assumes "scalar_bytes bs"
  shows "is_scalar_value (next_code_point bs)"
  using assms
proof (cases rule: scalar_bytes_cases)
  case (one x)
  then show ?thesis
    by (simp add: is_scalar_value_def is_ascii_def)
next
  case (two x y)
  from two(2,3) obtain a b where "a < 32" "b < 64" "next_code_point [x, y] = a * 64 + b"
    by (rule two_bytes)
  with two(1) show ?thesis
    by (simp add: is_scalar_value_def)
next
  case (three x y z)
  from three(2-4) obtain a b c where "a < 16" "b < 64" "c < 64" "a = 13 \<longrightarrow> b < 32"
    "next_code_point [x, y, z] = (a * 64 + b) * 64 + c"
    by (rule three_bytes)
  with three(1) three_scalar [of a b c] show ?thesis
    by simp
next
  case (four x y z w)
  from four(2-5) obtain a b c d where "a < 5" "b < 64" "c < 64" "d < 64"
    "a = 0 \<longrightarrow> 16 \<le> b" "a = 4 \<longrightarrow> b < 16"
    "next_code_point [x, y, z, w] = ((a * 64 + b) * 64 + c) * 64 + d"
    by (rule four_bytes)
  with four(1) four_scalar [of a b c d] show ?thesis
    by simp
qed


section \<open>Encoding, then decoding\<close>

text \<open>
  The encoding of a scalar value is an encoded character of the length
  that \<^verbatim>\<open>len_utf8\<close> gives, and decodes to the value.
\<close>

lemma split_digit:
  fixes n :: nat
  obtains q c where "n = q * 64 + c" and "c < 64"
  using that [of "n div 64" "n mod 64"] by simp

lemma of_char_lead: "k + a < 256 \<Longrightarrow> (of_char (char_of (k + a)) :: nat) = k + a"
  by simp

lemma bytes_two:
  assumes "2 \<le> a" and "a < 32" and "b < 64"
  shows "scalar_bytes [char_of (192 + a), char_of (128 + b)]"
    and "next_code_point [char_of (192 + a), char_of (128 + b)] = a * 64 + b"
proof -
  from assms have x: "(of_char (char_of (192 + a)) :: nat) = 192 + a"
    and y: "(of_char (char_of (128 + b)) :: nat) = 128 + b"
    by simp_all
  from assms show "scalar_bytes [char_of (192 + a), char_of (128 + b)]"
    by (simp add: width_bounds is_cont_def x y del: of_char_of)
  from assms mod_window [of 192 "192 + a" 32] mod_window [of 128 "128 + b" 64]
  show "next_code_point [char_of (192 + a), char_of (128 + b)] = a * 64 + b"
    by (simp add: utf8_acc_cont_byte_def x y del: of_char_of)
qed

lemma bytes_three:
  assumes "a < 16" and "b < 64" and "c < 64" and "a = 0 \<longrightarrow> 32 \<le> b" and "a = 13 \<longrightarrow> b < 32"
  shows "scalar_bytes [char_of (224 + a), char_of (128 + b), char_of (128 + c)]"
    and "next_code_point [char_of (224 + a), char_of (128 + b), char_of (128 + c)] =
         (a * 64 + b) * 64 + c"
proof -
  from assms have x: "(of_char (char_of (224 + a)) :: nat) = 224 + a"
    and y: "(of_char (char_of (128 + b)) :: nat) = 128 + b"
    and z: "(of_char (char_of (128 + c)) :: nat) = 128 + c"
    by simp_all
  from assms show "scalar_bytes [char_of (224 + a), char_of (128 + b), char_of (128 + c)]"
    by (auto simp: width_bounds is_cont_def second_of_three_def x y z simp del: of_char_of)
  from assms mod_window [of 224 "224 + a" 32] mod_window [of 128 "128 + b" 64]
    mod_window [of 128 "128 + c" 64]
  show "next_code_point [char_of (224 + a), char_of (128 + b), char_of (128 + c)] =
      (a * 64 + b) * 64 + c"
    by (simp add: utf8_acc_cont_byte_def x y z del: of_char_of)
qed

lemma bytes_four:
  assumes "a < 5" and "b < 64" and "c < 64" and "d < 64"
    and "a = 0 \<longrightarrow> 16 \<le> b" and "a = 4 \<longrightarrow> b < 16"
  shows "scalar_bytes [char_of (240 + a), char_of (128 + b), char_of (128 + c), char_of (128 + d)]"
    and "next_code_point
           [char_of (240 + a), char_of (128 + b), char_of (128 + c), char_of (128 + d)] =
         ((a * 64 + b) * 64 + c) * 64 + d"
proof -
  from assms have x: "(of_char (char_of (240 + a)) :: nat) = 240 + a"
    and y: "(of_char (char_of (128 + b)) :: nat) = 128 + b"
    and z: "(of_char (char_of (128 + c)) :: nat) = 128 + c"
    and w: "(of_char (char_of (128 + d)) :: nat) = 128 + d"
    by simp_all
  from assms
  show "scalar_bytes [char_of (240 + a), char_of (128 + b), char_of (128 + c), char_of (128 + d)]"
    by (auto simp: width_bounds is_cont_def second_of_four_def x y z w simp del: of_char_of)
  from assms have "(240 + a) mod 32 mod 8 = a"
    using mod_window [of 240 "240 + a" 8] by (simp add: mod_mod_cancel)
  with assms mod_window [of 128 "128 + b" 64] mod_window [of 128 "128 + c" 64]
    mod_window [of 128 "128 + d" 64]
  show "next_code_point
      [char_of (240 + a), char_of (128 + b), char_of (128 + c), char_of (128 + d)] =
      ((a * 64 + b) * 64 + c) * 64 + d"
    by (simp add: utf8_acc_cont_byte_def x y z w del: of_char_of)
qed


lemma encode_utf8_scalar:
  assumes "is_scalar_value n"
  shows "scalar_bytes (encode_utf8 n) \<and> next_code_point (encode_utf8 n) = n \<and>
         length (encode_utf8 n) = len_utf8 n"
proof -
  obtain q d where q: "n = q * 64 + d" "d < 64"
    by (rule split_digit)
  obtain r c where r: "q = r * 64 + c" "c < 64"
    by (rule split_digit)
  obtain a b where a: "r = a * 64 + b" "b < 64"
    by (rule split_digit)
  consider "n < 128" | "128 \<le> n" "n < 2048" | "2048 \<le> n" "n < 65536" | "65536 \<le> n"
    by linarith
  then show ?thesis
  proof cases
    case 1
    then show ?thesis
      by (simp add: encode_utf8_def len_utf8_def width_one is_ascii_def)
  next
    case 2
    with q have "2 \<le> q" "q < 32"
      by simp_all
    with q bytes_two [of q d] encode_two [of q d] show ?thesis
      by (simp add: len_utf8_def)
  next
    case 3
    with q r have "r < 16" "r = 0 \<longrightarrow> 32 \<le> c"
      by auto
    moreover from assms q r have "r = 13 \<longrightarrow> c < 32"
      by (auto simp: is_scalar_value_def)
    ultimately show ?thesis
      using q r bytes_three [of r c d] encode_three [of r c d] by (simp add: len_utf8_def)
  next
    case 4
    with assms have "n < 1114112"
      by (simp add: is_scalar_value_def)
    with 4 q r a have "a < 5" "a = 0 \<longrightarrow> 16 \<le> b" "a = 4 \<longrightarrow> b < 16"
      by auto
    then show ?thesis
      using q r a bytes_four [of a b c d] encode_four [of a b c d] by (simp add: len_utf8_def)
  qed
qed


section \<open>Strings as sequences of characters\<close>

text \<open>
  A valid string is the string of its characters, which are scalar
  values; the string of scalar values is valid and has them as its
  characters.  A string has between one and four bytes for each
  character.
\<close>

lemma code_point_width_scalar:
  assumes "scalar_bytes (x # c)"
  shows "code_point_width x = Suc (length c)"
  using assms
  by (cases rule: scalar_bytes_cases)
    (auto simp: code_point_width_def width_bounds is_ascii_def)

lemma chars_scalar:
  assumes "scalar_bytes c"
  shows "chars (c @ r) = next_code_point c # chars r"
proof -
  from assms obtain x c' where c: "c = x # c'"
    by (cases c) simp_all
  with assms have "code_point_width x = Suc (length c')"
    by (simp add: code_point_width_scalar)
  then show ?thesis
    by (simp add: c chars.simps(2))
qed

text \<open>In a string the iterator reads the chunks.\<close>

lemma chars_chunks:
  assumes "valid_utf8 s"
  shows "chars s = map (\<lambda>(good, bytes). next_code_point bytes) (utf8_chunks s)"
  using assms
  by (induction rule: valid_utf8_induct) (simp_all add: chars_scalar utf8_chunks_scalar)

lemma string_of_chars_simps [simp]:
  "string_of_chars [] = []"
  "string_of_chars (n # ns) = encode_utf8 n @ string_of_chars ns"
  by (simp_all add: string_of_chars_def)

lemma length_scalar_bytes:
  assumes "scalar_bytes c"
  shows "0 < length c" and "length c \<le> 4"
  using assms by (cases rule: scalar_bytes_cases; simp)+

lemma len_utf8_next_code_point:
  assumes "scalar_bytes c"
  shows "len_utf8 (next_code_point c) = length c"
  using encode_utf8_scalar [OF is_scalar_value_next_code_point [OF assms]]
  by (simp add: encode_next_code_point [OF assms])

lemma string_of_chars_chars:
  assumes "valid_utf8 s"
  shows "string_of_chars (chars s) = s"
  using assms
  by (induction rule: valid_utf8_induct) (simp_all add: chars_scalar encode_next_code_point)

lemma chars_scalar_values:
  assumes "valid_utf8 s"
  shows "list_all is_scalar_value (chars s)"
  using assms
  by (induction rule: valid_utf8_induct)
    (simp_all add: chars_scalar is_scalar_value_next_code_point)

lemma chars_string_of_chars:
  assumes "list_all is_scalar_value ns"
  shows "valid_utf8 (string_of_chars ns) \<and> chars (string_of_chars ns) = ns"
  using assms
  by (induction ns) (simp_all add: encode_utf8_scalar chars_scalar valid_utf8_scalar)

lemma length_chars:
  assumes "valid_utf8 s"
  shows "length s = sum_list (map len_utf8 (chars s))"
  using assms
  by (induction rule: valid_utf8_induct) (simp_all add: chars_scalar len_utf8_next_code_point)

lemma chars_Cons_ascii: "is_ascii b \<Longrightarrow> chars (b # s) = of_char b # chars s"
  using chars_scalar [of "[b]" s] by (simp add: width_one)

lemma chars_ascii: "list_all is_ascii s \<Longrightarrow> chars s = map of_char s"
  by (induction s) (simp_all add: chars_Cons_ascii)


lemma length_chars_bounds:
  assumes "valid_utf8 s"
  shows "length (chars s) \<le> length s \<and> length s \<le> 4 * length (chars s)"
  using assms
proof (induction rule: valid_utf8_induct)
  case (scalar c r)
  from scalar(1) have "length (chars (c @ r)) = Suc (length (chars r))"
    by (simp add: chars_scalar)
  with scalar(3) length_scalar_bytes [OF scalar(1)] show ?case
    unfolding length_append by linarith
qed simp

lemma multibyte_scalar:
  assumes "scalar_bytes c" and "\<not> (\<exists>x\<in>set c. is_ascii x)"
  shows "128 \<le> next_code_point c"
  using assms
proof (cases rule: scalar_bytes_cases)
  case (one x)
  with assms(2) show ?thesis by simp
qed (use len_utf8_next_code_point [OF assms(1)] in \<open>simp_all add: len_utf8_def split: if_splits\<close>)


text \<open>
  C29.  The validation by chunks is the definition of UTF-8: a sequence
  of bytes is valid exactly when the decoder reads scalar values from it
  whose encodings, one after the other, are the sequence.  Overlong
  encodings, surrogates, values beyond \<^verbatim>\<open>U+10FFFF\<close> and truncated
  characters are what fails.
\<close>

theorem valid_utf8_iff_chars:
  "valid_utf8 s \<longleftrightarrow> list_all is_scalar_value (chars s) \<and> string_of_chars (chars s) = s"
  using chars_string_of_chars [of "chars s"]
  by (auto simp: chars_scalar_values string_of_chars_chars)

theorem valid_utf8_iff_chars_witness:
  "valid_utf8 [CHR 0xE2, CHR 0x82, CHR 0xAC] \<and>
   \<not> valid_utf8 [CHR 0xED, CHR 0xA0, CHR 0x80] \<and>
   \<not> valid_utf8 [CHR 0xC0, CHR 0xAF]"
proof -
  have "chars [CHR 0xE2, CHR 0x82, CHR 0xAC] = [0x20AC]"
    by (simp add: chars.simps(2) code_point_width_def utf8_acc_cont_byte_def)
  moreover have "string_of_chars [0x20AC] = [CHR 0xE2, CHR 0x82, CHR 0xAC]"
    by (simp add: encode_utf8_def len_utf8_def char_eq_of_char)
  moreover have "chars [CHR 0xED, CHR 0xA0, CHR 0x80] = [0xD800]"
    and "chars [CHR 0xC0, CHR 0xAF] = [0x2F]"
    by (simp_all add: chars.simps(2) code_point_width_def utf8_acc_cont_byte_def)
  moreover have "string_of_chars [0x2F] \<noteq> [CHR 0xC0, CHR 0xAF]"
    by (simp add: encode_utf8_def len_utf8_def)
  ultimately show ?thesis
    using valid_utf8_iff_chars [of "[CHR 0xE2, CHR 0x82, CHR 0xAC]"]
      valid_utf8_iff_chars [of "[CHR 0xED, CHR 0xA0, CHR 0x80]"]
      valid_utf8_iff_chars [of "[CHR 0xC0, CHR 0xAF]"]
    by (simp add: is_scalar_value_def)
qed

end
