(* ===== verification/Debug_Chars.thy ===== *)
theory Debug_Chars
  imports Unicode Output
begin

text \<open>
  The \<^verbatim>\<open>Debug\<close> format of a string on its characters, as the standard
  library defines it (\<^verbatim>\<open>char::escape_debug_ext\<close> behind
  \<^verbatim>\<open>println!("{:?}", reflect_types)\<close>, \<^verbatim>\<open>src/main.rs\<close> line 42): a
  character beyond ASCII is written as it is when the tables of the
  Unicode database call it printable and not a grapheme extender, and as
  \<^verbatim>\<open>\u{...}\<close> with its number otherwise.  The two tables are data of the
  standard library and are parameters here.  The theory shows where the
  format on bytes of \<^theory_text>\<open>Output\<close> is this format: on exactly the
  strings all of whose characters are plain for the tables, which are
  ASCII without \<^verbatim>\<open>0x7F\<close> and the characters beyond that are written as
  they are; and that both formats write valid UTF-8.
\<close>

section \<open>The escapes of a character\<close>

record unicode_data =
  grapheme_extend :: "nat \<Rightarrow> bool"
  printable :: "nat \<Rightarrow> bool"

text \<open>
  \<^verbatim>\<open>char::is_grapheme_extended\<close> and \<^verbatim>\<open>unicode::printable::is_printable\<close>
  decide the characters below \<^verbatim>\<open>0x7F\<close> without the tables.
\<close>

definition is_grapheme_extended :: "unicode_data \<Rightarrow> nat \<Rightarrow> bool" where
  "is_grapheme_extended tables c \<longleftrightarrow> 0x7F < c \<and> grapheme_extend tables c"

definition is_printable_char :: "unicode_data \<Rightarrow> nat \<Rightarrow> bool" where
  "is_printable_char tables c =
     (if c < 32 then False else if c < 127 then True else printable tables c)"

definition escape_unicode_char :: "nat \<Rightarrow> string" where
  "escape_unicode_char c = [backslash, CHR ''u'', CHR ''{''] @ to_hex c @ [CHR ''}'']"

definition escape_debug_ext :: "unicode_data \<Rightarrow> nat \<Rightarrow> string" where
  "escape_debug_ext tables c =
     (if c = 0x00 then [backslash, CHR ''0'']
      else if c = 0x09 then [backslash, CHR ''t'']
      else if c = 0x0D then [backslash, CHR ''r'']
      else if c = 0x0A then [backslash, CHR ''n'']
      else if c = 0x5C then [backslash, backslash]
      else if c = 0x22 then [backslash, double_quote]
      else if is_grapheme_extended tables c then escape_unicode_char c
      else if is_printable_char tables c then encode_utf8 c
      else escape_unicode_char c)"

text \<open>The string, the vector and the line, as in \<^theory_text>\<open>Output\<close>.\<close>

definition str_debug_chars :: "unicode_data \<Rightarrow> string \<Rightarrow> string" where
  "str_debug_chars tables s =
     double_quote # concat (map (escape_debug_ext tables) (chars s)) @ [double_quote]"

definition vec_debug_chars :: "unicode_data \<Rightarrow> string list \<Rightarrow> string" where
  "vec_debug_chars tables xs = ''['' @ join (map (str_debug_chars tables) xs) '', '' @ '']''"

definition println_debug_chars :: "unicode_data \<Rightarrow> string list \<Rightarrow> string" where
  "println_debug_chars tables xs = vec_debug_chars tables xs @ [CHR 0x0A]"

text \<open>
  The characters on which the two formats agree: ASCII, where the one
  character that is left to the table is \<^verbatim>\<open>0x7F\<close>, and beyond ASCII the
  characters that are printable and extend no grapheme.
\<close>

definition plain_scalar :: "unicode_data \<Rightarrow> nat \<Rightarrow> bool" where
  "plain_scalar tables c \<longleftrightarrow>
     c < 127 \<or> (c = 127 \<and> \<not> printable tables c) \<or>
     (127 < c \<and> printable tables c \<and> \<not> grapheme_extend tables c)"

section \<open>The escapes of a byte\<close>

text \<open>
  The format on bytes escapes the bytes of ASCII by ASCII and leaves every
  other byte as it is, so it keeps a valid string valid.
\<close>

lemma is_ascii_hex_digit: "n < 16 \<Longrightarrow> is_ascii (hex_digit n)"
  by (simp add: hex_digit_def is_ascii_def)

lemma is_ascii_to_hex: "list_all is_ascii (to_hex n)"
  by (induction n rule: to_hex.induct) (subst to_hex.simps, simp add: is_ascii_hex_digit)

lemma escape_debug_ascii: "is_ascii c \<Longrightarrow> list_all is_ascii (escape_debug c)"
  by (simp add: escape_debug_def escape_unicode_def backslash_def double_quote_def
      is_ascii_to_hex) (simp add: is_ascii_def)

lemma escape_debug_not_ascii: "\<not> is_ascii c \<Longrightarrow> escape_debug c = [c]"
  by (auto simp: escape_debug_def is_ascii_def is_printable_def backslash_def double_quote_def)

lemma valid_utf8_escape_debug:
  assumes "valid_utf8 s"
  shows "valid_utf8 (concat (map escape_debug s))"
  using assms
proof (induction rule: valid_utf8_induct)
  case Nil
  show ?case by simp
next
  case (scalar c r)
  show ?case
  proof (cases "\<exists>x\<in>set c. is_ascii x")
    case True
    then obtain x where "c = [x]" "is_ascii x"
      using scalar_bytes_ascii_mem [OF scalar(1)] by blast
    with scalar(3) show ?thesis
      by (simp add: valid_utf8_append valid_utf8_ascii escape_debug_ascii)
  next
    case False
    then have "concat (map escape_debug c) = c"
      by (induction c) (simp_all add: escape_debug_not_ascii)
    with scalar show ?thesis
      by (simp add: valid_utf8_scalar)
  qed
qed

lemma valid_utf8_str_debug: "valid_utf8 s \<Longrightarrow> valid_utf8 (str_debug s)"
  by (simp add: str_debug_def double_quote_def valid_utf8_Cons_ascii valid_utf8_append
      valid_utf8_escape_debug is_ascii_def)

lemma valid_utf8_vec_debug:
  assumes "list_all valid_utf8 xs"
  shows "valid_utf8 (vec_debug xs)"
proof -
  from assms have "valid_utf8 (join (map str_debug xs) '', '')"
    by (intro valid_utf8_join) (auto simp: list_all_iff valid_utf8_str_debug valid_utf8_ascii is_ascii_def)
  then show ?thesis
    by (simp add: vec_debug_def valid_utf8_Cons_ascii valid_utf8_append is_ascii_def)
qed

lemma valid_utf8_println_debug:
  "list_all valid_utf8 xs \<Longrightarrow> valid_utf8 (println_debug xs)"
  by (simp add: println_debug_def valid_utf8_append valid_utf8_vec_debug valid_utf8_ascii is_ascii_def)



section \<open>Characters and bytes\<close>

lemma escape_debug_ext_ascii:
  assumes "is_ascii x" and "plain_scalar tables (of_char x)"
  shows "escape_debug_ext tables (of_char x) = escape_debug x"
  using assms
  by (auto simp: escape_debug_ext_def escape_debug_def escape_unicode_def
      escape_unicode_char_def is_grapheme_extended_def is_printable_char_def is_printable_def
      plain_scalar_def is_ascii_def backslash_def double_quote_def char_eq_of_char encode_utf8_def
      len_utf8_def)

lemma escape_debug_ext_plain:
  assumes "128 \<le> c" and "plain_scalar tables c"
  shows "escape_debug_ext tables c = encode_utf8 c"
  using assms
  by (simp add: escape_debug_ext_def plain_scalar_def is_grapheme_extended_def
      is_printable_char_def)

lemma escapes_of_plain:
  assumes "scalar_bytes c" and "plain_scalar tables (next_code_point c)"
  shows "escape_debug_ext tables (next_code_point c) = concat (map escape_debug c)"
proof (cases "\<exists>x\<in>set c. is_ascii x")
  case True
  then obtain x where "c = [x]" "is_ascii x"
    using scalar_bytes_ascii_mem [OF assms(1)] by blast
  with assms(2) show ?thesis
    by (simp add: escape_debug_ext_ascii)
next
  case False
  then have "concat (map escape_debug c) = c"
    by (induction c) (simp_all add: escape_debug_not_ascii)
  moreover from assms False
  have "escape_debug_ext tables (next_code_point c) = encode_utf8 (next_code_point c)"
    by (intro escape_debug_ext_plain multibyte_scalar)
  ultimately show ?thesis
    using assms(1) by (simp add: encode_next_code_point)
qed

text \<open>
  On every other character the two formats differ in the first byte they
  write: one of them writes a backslash and the other a byte of the
  character.
\<close>

lemma escapes_of_other:
  assumes "scalar_bytes c" and "\<not> plain_scalar tables (next_code_point c)"
  obtains x p y q where "escape_debug_ext tables (next_code_point c) = x # p"
    and "concat (map escape_debug c) = y # q" and "x \<noteq> y"
proof (cases "\<exists>x\<in>set c. is_ascii x")
  case True
  then obtain b where b: "c = [b]" "is_ascii b"
    using scalar_bytes_ascii_mem [OF assms(1)] by blast
  with assms(2) have n: "(of_char b :: nat) = 127" "printable tables 127"
    by (auto simp: plain_scalar_def is_ascii_def)
  then have "escape_debug_ext tables (next_code_point c) = [char_of (127 :: nat)]"
    by (simp add: b escape_debug_ext_def is_grapheme_extended_def is_printable_char_def
        encode_utf8_def len_utf8_def)
  moreover from n(1) have "concat (map escape_debug c) = backslash # CHR ''u'' # CHR ''{'' # to_hex 127 @ ''}''"
    by (simp add: b escape_debug_def escape_unicode_def is_printable_def char_eq_of_char
        backslash_def double_quote_def)
  ultimately show thesis
    by (rule that) (simp add: backslash_def char_eq_of_char)
next
  case False
  then have bytes: "concat (map escape_debug c) = c"
    by (induction c) (simp_all add: escape_debug_not_ascii)
  from assms(1) obtain y q where c: "c = y # q"
    by (cases c) simp_all
  with False have "\<not> is_ascii y"
    by simp
  then have y: "backslash \<noteq> y"
    by (auto simp: is_ascii_def backslash_def)
  from assms(1) False have "128 \<le> next_code_point c"
    by (rule multibyte_scalar)
  with assms(2)
  have "escape_debug_ext tables (next_code_point c) = escape_unicode_char (next_code_point c)"
    by (simp add: escape_debug_ext_def plain_scalar_def is_grapheme_extended_def
        is_printable_char_def)
  then have "escape_debug_ext tables (next_code_point c) =
      backslash # CHR ''u'' # CHR ''{'' # to_hex (next_code_point c) @ ''}''"
    by (simp add: escape_unicode_char_def)
  moreover from bytes c have "concat (map escape_debug c) = y # q"
    by simp
  ultimately show thesis
    using y by (rule that)
qed

lemma escapes_agree_iff:
  assumes "valid_utf8 s"
  shows "concat (map (escape_debug_ext tables) (chars s)) = concat (map escape_debug s) \<longleftrightarrow>
         list_all (plain_scalar tables) (chars s)"
  using assms
proof (induction rule: valid_utf8_induct)
  case Nil
  show ?case by simp
next
  case (scalar c r)
  show ?case
  proof (cases "plain_scalar tables (next_code_point c)")
    case True
    with scalar show ?thesis
      by (simp add: chars_scalar escapes_of_plain)
  next
    case False
    with scalar(1) obtain x p y q where "escape_debug_ext tables (next_code_point c) = x # p"
      "concat (map escape_debug c) = y # q" "x \<noteq> y"
      by (rule escapes_of_other)
    with scalar(1) False show ?thesis
      by (simp add: chars_scalar)
  qed
qed

lemmas escapes_agree = escapes_agree_iff [THEN iffD2]

text \<open>
  C21.  Where the format on bytes is the \<^verbatim>\<open>Debug\<close> format of Rust: on
  exactly the strings whose characters are plain for the tables.  For a
  valid string, the escapes of its characters, computed by decoding the
  string, are the escapes of its bytes if and only if the string has no
  character beyond ASCII that the tables call unprintable or a grapheme
  extender, and no \<^verbatim>\<open>0x7F\<close> that they call printable.
\<close>

theorem str_debug_chars_iff:
  assumes "valid_utf8 s"
  shows "str_debug_chars tables s = str_debug s \<longleftrightarrow> list_all (plain_scalar tables) (chars s)"
  using assms by (simp add: str_debug_chars_def str_debug_def escapes_agree_iff)

theorem str_debug_chars_iff_witness:
  "str_debug_chars \<lparr>grapheme_extend = (\<lambda>c. 0x300 \<le> c \<and> c < 0x370), printable = (\<lambda>c. 0xA0 \<le> c)\<rparr>
     [CHR ''C'', CHR ''a'', CHR ''f'', CHR 0xC3, CHR 0xA9] =
   str_debug [CHR ''C'', CHR ''a'', CHR ''f'', CHR 0xC3, CHR 0xA9] \<and>
   str_debug_chars \<lparr>grapheme_extend = (\<lambda>c. 0x300 \<le> c \<and> c < 0x370), printable = (\<lambda>c. 0xA0 \<le> c)\<rparr>
     [CHR ''e'', CHR 0xCC, CHR 0x81] \<noteq>
   str_debug [CHR ''e'', CHR 0xCC, CHR 0x81]"
proof -
  let ?tables = "\<lparr>grapheme_extend = (\<lambda>c. 0x300 \<le> c \<and> c < 0x370), printable = (\<lambda>c. 0xA0 \<le> c)\<rparr>"
  let ?s = "[CHR ''C'', CHR ''a'', CHR ''f'', CHR 0xC3, CHR 0xA9]"
  let ?t = "[CHR ''e'', CHR 0xCC, CHR 0x81]"
  have "valid_utf8 ?s" and "valid_utf8 ?t"
    by (simp_all add: utf8_eval)
  moreover have "chars ?s = [67, 97, 102, 233]" and "chars ?t = [101, 769]"
    by (simp_all add: chars.simps(2) code_point_width_def utf8_acc_cont_byte_def)
  ultimately show ?thesis
    using str_debug_chars_iff [of ?s ?tables] str_debug_chars_iff [of ?t ?tables]
    by (simp add: plain_scalar_def)
qed

text \<open>
  The same for the vector, and for a string of ASCII without \<^verbatim>\<open>0x7F\<close>
  under any tables.
\<close>

lemma vec_debug_chars_plain:
  assumes "list_all valid_utf8 xs" and "list_all (\<lambda>s. list_all (plain_scalar tables) (chars s)) xs"
  shows "vec_debug_chars tables xs = vec_debug xs"
proof -
  from assms have "map (str_debug_chars tables) xs = map str_debug xs"
    by (simp add: list_all_iff escapes_agree str_debug_chars_def str_debug_def)
  then show ?thesis
    by (simp only: vec_debug_chars_def vec_debug_def)
qed

lemma plain_scalar_ascii: "c < 127 \<Longrightarrow> plain_scalar tables c"
  by (simp add: plain_scalar_def)

lemma str_debug_chars_ascii:
  assumes "list_all (\<lambda>b. (of_char b :: nat) < 127) s"
  shows "str_debug_chars tables s = str_debug s"
proof -
  from assms have ascii: "list_all is_ascii s"
    by (auto simp: list_all_iff is_ascii_def)
  with assms have "list_all (plain_scalar tables) (chars s)"
    by (auto simp: chars_ascii list_all_iff plain_scalar_ascii)
  with ascii show ?thesis
    by (simp add: str_debug_chars_def str_debug_def escapes_agree valid_utf8_ascii)
qed

section \<open>The output is a string\<close>

text \<open>The format on characters writes valid UTF-8 for a valid string.\<close>

lemma valid_utf8_concat: "list_all valid_utf8 xs \<Longrightarrow> valid_utf8 (concat xs)"
  by (induction xs) (simp_all add: valid_utf8_append)

lemma valid_utf8_escape_debug_ext:
  assumes "is_scalar_value c"
  shows "valid_utf8 (escape_debug_ext tables c)"
proof -
  have "list_all is_ascii (escape_unicode_char c)"
    by (simp add: escape_unicode_char_def backslash_def is_ascii_to_hex) (simp add: is_ascii_def)
  moreover from assms have "valid_utf8 (encode_utf8 c)"
    using valid_utf8_scalar [of "encode_utf8 c" "[]"] by (simp add: encode_utf8_scalar)
  ultimately show ?thesis
    by (simp add: escape_debug_ext_def valid_utf8_ascii backslash_def double_quote_def
        is_ascii_def)
qed

lemma valid_utf8_str_debug_chars:
  assumes "valid_utf8 s"
  shows "valid_utf8 (str_debug_chars tables s)"
proof -
  from assms have "list_all valid_utf8 (map (escape_debug_ext tables) (chars s))"
    using chars_scalar_values [of s] by (simp add: list_all_iff valid_utf8_escape_debug_ext)
  then show ?thesis
    by (simp add: str_debug_chars_def double_quote_def valid_utf8_Cons_ascii valid_utf8_append
        valid_utf8_concat is_ascii_def)
qed

lemma valid_utf8_println_debug_chars:
  assumes "list_all valid_utf8 xs"
  shows "valid_utf8 (println_debug_chars tables xs)"
proof -
  from assms have "valid_utf8 (join (map (str_debug_chars tables) xs) '', '')"
    by (intro valid_utf8_join)
      (auto simp: list_all_iff valid_utf8_str_debug_chars valid_utf8_ascii is_ascii_def)
  then show ?thesis
    by (simp add: println_debug_chars_def vec_debug_chars_def valid_utf8_Cons_ascii
        valid_utf8_append is_ascii_def)
qed

end
