(* ===== verification/Debug_Read.thy ===== *)
theory Debug_Read
  imports Debug_Chars
begin

text \<open>
  Reading the printed vector back.  The reader of \<^theory_text>\<open>Output\<close> takes an
  escape \<^verbatim>\<open>\u{...}\<close> for one byte; in the format on characters the number
  between the braces is a character, which stands for the bytes of its
  encoding.  The reader defined here reads that format, total by
  termination proofs, and the round trip shows that the line which the
  program prints determines the report under any tables of the Unicode
  database: what one version of the standard library prints, a reader
  that knows no table reads.
\<close>

section \<open>A reader for the format on characters\<close>

text \<open>
  The character of a unicode escape, read behind \<^verbatim>\<open>\u{\<close>: hexadecimal
  digits of a scalar value up to the closing brace.  One escape behind a
  backslash yields the bytes of the character it stands for.
\<close>

definition read_unicode_char :: "string \<Rightarrow> (string \<times> string) option" where
  "read_unicode_char r =
     (let digits = takeWhile (\<lambda>x. x \<noteq> CHR ''}'') r
      in case dropWhile (\<lambda>x. x \<noteq> CHR ''}'') r of
           [] \<Rightarrow> None
         | brace # rest \<Rightarrow>
             if digits = [] then None
             else (case from_hex 0 digits of
                     None \<Rightarrow> None
                   | Some n \<Rightarrow> if is_scalar_value n then Some (encode_utf8 n, rest) else None))"

fun unescape_char :: "string \<Rightarrow> (string \<times> string) option" where
  "unescape_char [] = None"
| "unescape_char (e # r) =
     (if e = CHR ''0'' then Some ([CHR 0x00], r)
      else if e = CHR ''t'' then Some ([CHR 0x09], r)
      else if e = CHR ''r'' then Some ([CHR 0x0D], r)
      else if e = CHR ''n'' then Some ([CHR 0x0A], r)
      else if e = backslash then Some ([backslash], r)
      else if e = double_quote then Some ([double_quote], r)
      else if e = CHR ''u''
      then (case r of [] \<Rightarrow> None | b # r' \<Rightarrow> if b = CHR ''{'' then read_unicode_char r' else None)
      else None)"

lemma read_unicode_char_length: "read_unicode_char s = Some (c, r) \<Longrightarrow> length r < length s"
proof -
  assume "read_unicode_char s = Some (c, r)"
  then obtain brace where "dropWhile (\<lambda>x. x \<noteq> CHR ''}'') s = brace # r"
    by (auto simp: read_unicode_char_def Let_def split: list.splits if_splits option.splits)
  with length_dropWhile_le [of "\<lambda>x. x \<noteq> CHR ''}''" s] show ?thesis
    by simp
qed

lemma unescape_char_length: "unescape_char s = Some (c, r) \<Longrightarrow> length r < length s"
  by (cases s) (auto split: if_splits list.splits dest: read_unicode_char_length)

text \<open>A string up to its closing quotation mark, and what follows it.\<close>

function take_str_chars :: "string \<Rightarrow> (string \<times> string) option" where
  "take_str_chars [] = None"
| "take_str_chars (c # cs) =
     (if c = double_quote then Some ([], cs)
      else if c = backslash
      then (case unescape_char cs of
              None \<Rightarrow> None
            | Some (bytes, r) \<Rightarrow> map_option (\<lambda>(x, rest). (bytes @ x, rest)) (take_str_chars r))
      else map_option (\<lambda>(x, rest). (c # x, rest)) (take_str_chars cs))"
  by pat_completeness auto
termination
  by (relation "measure length") (auto dest: unescape_char_length)

declare take_str_chars.simps [simp del]

lemma take_str_chars_length: "take_str_chars s = Some (x, r) \<Longrightarrow> length r < length s"
proof (induction s arbitrary: x r rule: take_str_chars.induct)
  case 1
  then show ?case by (simp add: take_str_chars.simps)
next
  case (2 c cs)
  show ?case
  proof (cases "c = double_quote")
    case True
    with "2.prems" show ?thesis by (simp add: take_str_chars.simps)
  next
    case False
    show ?thesis
    proof (cases "c = backslash")
      case True
      with False "2.prems" obtain ch r' y where u: "unescape_char cs = Some (ch, r')"
        and t: "take_str_chars r' = Some (y, r)"
        by (auto simp: take_str_chars.simps split: option.splits)
      from "2.IH"(1) [OF False True u refl t] unescape_char_length [OF u] show ?thesis
        by simp
    next
      case bs: False
      with False "2.prems" obtain y where "take_str_chars cs = Some (y, r)"
        by (auto simp: take_str_chars.simps)
      from "2.IH"(2) [OF False bs this] show ?thesis
        by simp
    qed
  qed
qed

text \<open>The strings of a vector behind the first quotation mark, and the vector.\<close>

function parse_items_chars :: "string \<Rightarrow> string list option" where
  "parse_items_chars s =
     (case take_str_chars s of
        None \<Rightarrow> None
      | Some (x, r) \<Rightarrow>
          if r = '']'' then Some [x]
          else if prefix [CHR '','', CHR '' '', double_quote] r
          then map_option ((#) x) (parse_items_chars (drop 3 r))
          else None)"
  by pat_completeness auto
termination
  by (relation "measure length") (auto dest: take_str_chars_length)

declare parse_items_chars.simps [simp del]

definition parse_debug_vec_chars :: "string \<Rightarrow> string list option" where
  "parse_debug_vec_chars s =
     (if s = ''[]'' then Some []
      else if prefix [CHR ''['', double_quote] s then parse_items_chars (drop 2 s)
      else None)"

section \<open>Escaping and reading back\<close>

text \<open>
  What is written for one character is read as the bytes of the
  character: the bytes themselves, which hold no quotation mark and no
  backslash when the character is written as it is, or a backslash and
  an escape.
\<close>

lemma read_unicode_char_to_hex:
  assumes "is_scalar_value n"
  shows "read_unicode_char (to_hex n @ CHR ''}'' # rest) = Some (encode_utf8 n, rest)"
proof -
  have "\<forall>x \<in> set (to_hex n). x \<noteq> CHR ''}''"
    using to_hex_no_brace [of n] by blast
  then have "takeWhile (\<lambda>x. x \<noteq> CHR ''}'') (to_hex n @ CHR ''}'' # rest) = to_hex n"
    and "dropWhile (\<lambda>x. x \<noteq> CHR ''}'') (to_hex n @ CHR ''}'' # rest) = CHR ''}'' # rest"
    by simp_all
  with assms show ?thesis
    by (simp add: read_unicode_char_def to_hex_nonempty from_hex_to_hex)
qed

lemma take_str_chars_raw:
  assumes "double_quote \<notin> set c" and "backslash \<notin> set c"
  shows "take_str_chars (c @ r) = map_option (\<lambda>(x, rest). (c @ x, rest)) (take_str_chars r)"
  using assms
proof (induction c)
  case Nil
  show ?case
    by (simp add: option.map_ident split_def)
next
  case (Cons b c)
  then show ?case
    by (auto simp: take_str_chars.simps(2) option.map_comp comp_def split_def)
qed


lemma scalar_bytes_kinds [consumes 1, case_names ascii beyond]:
  assumes "scalar_bytes c"
  obtains x where "c = [x]" and "is_ascii x"
  | "\<forall>x\<in>set c. \<not> is_ascii x" and "128 \<le> next_code_point c"
proof (cases "\<exists>x\<in>set c. is_ascii x")
  case True
  then show thesis
    using scalar_bytes_ascii_mem [OF assms] that(1) by blast
next
  case False
  with assms that(2) multibyte_scalar [of c] show thesis
    by blast
qed

lemma take_str_chars_unicode:
  assumes "is_scalar_value n"
  shows "take_str_chars (escape_unicode_char n @ r) =
         map_option (\<lambda>(x, rest). (encode_utf8 n @ x, rest)) (take_str_chars r)"
  using assms
  by (simp add: escape_unicode_char_def take_str_chars.simps(2) backslash_def double_quote_def
      read_unicode_char_to_hex)

lemma take_str_chars_backslash:
  assumes "unescape_char s = Some (bytes, r)"
  shows "take_str_chars (backslash # s) =
         map_option (\<lambda>(x, rest). (bytes @ x, rest)) (take_str_chars r)"
  using assms by (simp add: take_str_chars.simps(2) backslash_def double_quote_def)

lemma take_str_chars_special:
  assumes "of_char x \<in> {0x00, 0x09, 0x0D, 0x0A, 0x5C, 0x22 :: nat}"
  shows "take_str_chars (escape_debug_ext tables (of_char x) @ r) =
         map_option (\<lambda>(y, rest). (x # y, rest)) (take_str_chars r)"
proof -
  from assms consider "x = CHR 0x00" | "x = CHR 0x09" | "x = CHR 0x0D" | "x = CHR 0x0A"
    | "x = CHR 0x5C" | "x = CHR 0x22"
    by (auto simp: char_eq_of_char)
  then show ?thesis
    by cases
      (simp_all add: escape_debug_ext_def take_str_chars.simps(2) backslash_def double_quote_def)
qed

lemma take_str_chars_escape:
  assumes "scalar_bytes c"
  shows "take_str_chars (escape_debug_ext tables (next_code_point c) @ r) =
         map_option (\<lambda>(x, rest). (c @ x, rest)) (take_str_chars r)"
proof -
  let ?n = "next_code_point c"
  let ?read = "map_option (\<lambda>(x, rest). (c @ x, rest)) (take_str_chars r)"
  from assms have n: "is_scalar_value ?n" and c: "encode_utf8 ?n = c"
    by (simp_all add: is_scalar_value_next_code_point encode_next_code_point)
  have unicode: "take_str_chars (escape_unicode_char ?n @ r) = ?read"
    using take_str_chars_unicode [OF n, of r] by (simp add: c)
  have raw: "take_str_chars (encode_utf8 ?n @ r) = ?read"
    if "double_quote \<notin> set c" and "backslash \<notin> set c"
    using take_str_chars_raw [OF that, of r] by (simp add: c)
  from assms show ?thesis
  proof (cases rule: scalar_bytes_kinds)
    case (ascii x)
    show ?thesis
    proof (cases "?n \<in> {0x00, 0x09, 0x0D, 0x0A, 0x5C, 0x22}")
      case True
      with ascii(1) take_str_chars_special [of x tables r] show ?thesis
        by simp
    next
      case False
      with ascii(1) have "double_quote \<notin> set c" "backslash \<notin> set c"
        by (auto simp: backslash_def double_quote_def)
      from raw [OF this] unicode False show ?thesis
        by (simp add: escape_debug_ext_def)
    qed
  next
    case beyond
    then have "double_quote \<notin> set c" "backslash \<notin> set c"
      by (auto simp: is_ascii_def backslash_def double_quote_def)
    from raw [OF this] unicode beyond(2) show ?thesis
      by (simp add: escape_debug_ext_def)
  qed
qed

text \<open>A valid string between quotation marks is read back.\<close>

lemma take_str_chars_escaped:
  assumes "valid_utf8 s"
  shows "take_str_chars (concat (map (escape_debug_ext tables) (chars s)) @ double_quote # rest) =
         Some (s, rest)"
  using assms
proof (induction rule: valid_utf8_induct)
  case Nil
  show ?case
    by (simp add: take_str_chars.simps)
next
  case (scalar c r)
  then show ?case
    by (simp add: chars_scalar take_str_chars_escape)
qed

text \<open>The text of a non-empty vector behind its first quotation mark.\<close>

fun vec_body_chars :: "unicode_data \<Rightarrow> string list \<Rightarrow> string" where
  "vec_body_chars tables [] = []"
| "vec_body_chars tables [x] =
     concat (map (escape_debug_ext tables) (chars x)) @ [double_quote]"
| "vec_body_chars tables (x # y # zs) =
     concat (map (escape_debug_ext tables) (chars x)) @
     double_quote # CHR '','' # CHR '' '' # double_quote # vec_body_chars tables (y # zs)"

lemma join_str_debug_chars:
  "xs \<noteq> [] \<Longrightarrow>
     join (map (str_debug_chars tables) xs) '', '' = double_quote # vec_body_chars tables xs"
  by (induction tables xs rule: vec_body_chars.induct) (simp_all add: str_debug_chars_def)

lemma parse_items_chars_vec_body:
  assumes "xs \<noteq> []" and "list_all valid_utf8 xs"
  shows "parse_items_chars (vec_body_chars tables xs @ '']'') = Some xs"
  using assms
proof (induction tables xs rule: vec_body_chars.induct)
  case (1 tables)
  then show ?case by simp
next
  case (2 tables x)
  then show ?case
    using take_str_chars_escaped [of x tables "'']''"]
    by (simp add: parse_items_chars.simps
        [of "concat (map (escape_debug_ext tables) (chars x)) @ double_quote # '']''"])
next
  case (3 tables x y zs)
  let ?rest = "CHR '','' # CHR '' '' # double_quote # vec_body_chars tables (y # zs) @ '']''"
  from "3.prems" have
    "take_str_chars (concat (map (escape_debug_ext tables) (chars x)) @ double_quote # ?rest) =
       Some (x, ?rest)"
    by (intro take_str_chars_escaped) simp
  with 3 show ?case
    by (simp add: parse_items_chars.simps
        [of "concat (map (escape_debug_ext tables) (chars x)) @ double_quote # ?rest"])
qed

lemma parse_debug_vec_chars_roundtrip:
  assumes "list_all valid_utf8 xs"
  shows "parse_debug_vec_chars (vec_debug_chars tables xs) = Some xs"
proof (cases "xs = []")
  case True
  then show ?thesis
    by (simp add: parse_debug_vec_chars_def vec_debug_chars_def)
next
  case False
  then have "vec_debug_chars tables xs = CHR ''['' # double_quote # vec_body_chars tables xs @ '']''"
    by (simp add: vec_debug_chars_def join_str_debug_chars)
  with False assms show ?thesis
    by (simp add: parse_debug_vec_chars_def parse_items_chars_vec_body double_quote_def)
qed

text \<open>
  The format on characters is unambiguous on strings, whatever the tables
  are.
\<close>

lemma vec_debug_chars_injective:
  assumes "list_all valid_utf8 xs" and "list_all valid_utf8 ys"
    and "vec_debug_chars tables xs = vec_debug_chars tables ys"
  shows "xs = ys"
proof -
  have "Some xs = parse_debug_vec_chars (vec_debug_chars tables xs)"
    by (simp only: parse_debug_vec_chars_roundtrip [OF assms(1)])
  also have "\<dots> = parse_debug_vec_chars (vec_debug_chars tables ys)"
    by (simp only: assms(3))
  also have "\<dots> = Some ys"
    by (rule parse_debug_vec_chars_roundtrip [OF assms(2)])
  finally show ?thesis
    by simp
qed

end
