(* ===== verification/Validity.thy ===== *)
theory Validity
  imports Pipeline Debug_Read
begin

text \<open>
  The strings of the program are strings.  The model writes a Rust
  \<^verbatim>\<open>String\<close> as a list of bytes, as it writes the names of the file
  system, which need not be text; the type of Rust promises that a
  \<^verbatim>\<open>String\<close> is valid UTF-8.  The theory shows that the model keeps the
  promise: with valid names in the metadata and in the parsed files,
  every string that \<^verbatim>\<open>src/main.rs\<close> builds by \<^verbatim>\<open>to_string_lossy\<close>,
  \<^verbatim>\<open>to_str\<close>, \<^verbatim>\<open>trim_end_matches\<close>, \<^verbatim>\<open>join\<close> and \<^verbatim>\<open>format!\<close> is valid,
  whatever the names in the file system are, and so is what it prints.
\<close>

section \<open>The strings of the inputs\<close>

text \<open>
  The identifiers of the items of a file, and the names of the packages
  of the metadata, which are the strings of the inputs that reach the
  report.
\<close>

fun valid_item :: "item \<Rightarrow> bool" where
  "valid_item (ItemStruct ats vis ident) = valid_utf8 ident"
| "valid_item (ItemEnum ats vis ident) = valid_utf8 ident"
| "valid_item (ItemMod ats vis ident None) = valid_utf8 ident"
| "valid_item (ItemMod ats vis ident (Some its)) = (valid_utf8 ident \<and> list_all valid_item its)"
| "valid_item ItemOther = True"

definition valid_file :: "syn_file \<Rightarrow> bool" where
  "valid_file f = list_all valid_item (items f)"

definition valid_metadata :: "metadata \<Rightarrow> bool" where
  "valid_metadata md = list_all (\<lambda>pkg. valid_utf8 (name pkg)) (packages md)"

text \<open>
  What the program writes when the vector is formatted on its characters,
  with the tables of the standard library.
\<close>

definition main_stdout_chars ::
  "unicode_data \<Rightarrow> file_system \<Rightarrow> (string \<Rightarrow> ('e, string) result) \<Rightarrow>
   (string \<Rightarrow> ('p, syn_file) result) \<Rightarrow> ('m, metadata) result \<Rightarrow> (panic, string) result" where
  "main_stdout_chars tables fs read parse exec =
     (case main fs read parse exec of
        Inl p \<Rightarrow> Err p
      | Inr reflect_types \<Rightarrow> Ok (println_debug_chars tables reflect_types))"

section \<open>Module paths\<close>

text \<open>
  The module path of a file is valid for every path: the components that
  are not valid are left out by \<^verbatim>\<open>to_str\<close>, trimming cuts ASCII off, and
  the separator is ASCII.
\<close>

lemma valid_utf8_format_qualified:
  "valid_utf8 a \<Longrightarrow> valid_utf8 b \<Longrightarrow> valid_utf8 (format_qualified a b)"
  by (simp add: format_qualified_def valid_utf8_sep valid_utf8_Cons_ascii is_ascii_def)

lemma valid_utf8_relative_path_to_module_path:
  "valid_utf8 (relative_path_to_module_path p)"
  unfolding relative_path_to_module_path_def
  by (rule valid_utf8_join)
    (auto simp: list_all_iff map_filter_to_str valid_utf8_ascii is_ascii_def
      intro!: valid_utf8_trim_end_matches)

lemma crate_root_for_file_loop_name:
  "crate_root_for_file_loop p pkgs = Some n \<Longrightarrow> n \<in> name ` set pkgs"
  by (induction pkgs) (auto split: option.splits if_splits)

lemma valid_utf8_resolve_module_path:
  assumes "valid_metadata md" and "resolve_module_path path md = Some mp"
  shows "valid_utf8 mp"
  using assms
  by (auto simp: resolve_module_path_def Let_def valid_metadata_def list_all_iff
      crate_root_for_file_def valid_utf8_relative_path_to_module_path
      split: option.splits dest!: crate_root_for_file_loop_name
      intro!: valid_utf8_format_qualified)

section \<open>Findings\<close>

lemma valid_utf8_item_findings:
  "valid_item item \<Longrightarrow> valid_utf8 mp \<Longrightarrow> list_all valid_utf8 (item_findings po pp mp item)"
  by (induction po pp mp item rule: item_findings.induct)
    (auto simp: list_all_iff valid_utf8_format_qualified item_findings.simps(4)
      split: if_splits)

lemma valid_utf8_findings:
  "list_all valid_item its \<Longrightarrow> valid_utf8 mp \<Longrightarrow> list_all valid_utf8 (findings po pp mp its)"
  by (auto simp: findings_def list_all_iff dest: valid_utf8_item_findings [unfolded list_all_iff])

lemma valid_utf8_entry_findings:
  assumes "valid_metadata md" and "valid_file f"
  shows "list_all valid_utf8 (entry_findings md (path, f))"
  using assms
  by (auto simp: entry_findings_def valid_file_def split: option.splits
      intro: valid_utf8_findings valid_utf8_resolve_module_path)

lemma valid_utf8_scan_tree:
  assumes "valid_metadata md" and "list_all (\<lambda>entry. valid_file (snd entry)) tree"
  shows "list_all valid_utf8 (scan_tree md tree)"
  using assms valid_utf8_entry_findings [of md]
  by (fastforce simp: scan_tree_concat list_all_iff)

section \<open>The program\<close>

lemma loaded_parsed: "loaded read parse path = Some f \<Longrightarrow> \<exists>content. parse content = Ok f"
  by (cases "read path") (auto simp: loaded_def ok_def split: sum.splits)

lemma valid_load_files:
  assumes "\<And>content f. parse content = Ok f \<Longrightarrow> valid_file f"
  shows "list_all (\<lambda>entry. valid_file (snd entry)) (load_files read parse files)"
  using assms by (auto simp: list_all_iff load_files_entry dest!: loaded_parsed)

lemma valid_utf8_scan_load:
  assumes "valid_metadata md"
    and "\<And>content f. parse content = Ok f \<Longrightarrow> valid_file f"
  shows "list_all valid_utf8 (scan_tree md (load_files read parse files))"
  using assms(1) valid_load_files [OF assms(2)] by (rule valid_utf8_scan_tree)

text \<open>
  C15.  The report is a vector of strings and the output is text: if the
  names of the packages are valid UTF-8 and the parser returns files
  whose identifiers are, then every name that \<^verbatim>\<open>main\<close> reports is valid
  UTF-8, and so is the line it prints, in the format on bytes and in the
  format on characters under any tables.  Nothing is asked of the file
  system, of the reader or of the manifest paths.
\<close>

theorem strings_valid:
  assumes "valid_metadata md"
    and "\<And>content f. parse content = Ok f \<Longrightarrow> valid_file f"
  shows "\<exists>reflect_types out.
           main fs read parse (Ok md) = Ok reflect_types \<and>
           list_all valid_utf8 reflect_types \<and>
           main_stdout fs read parse (Ok md) = Ok out \<and> valid_utf8 out \<and>
           valid_utf8 (println_debug_chars tables reflect_types)"
proof -
  have "list_all valid_utf8 (scan_tree md (load_files read parse files))" for files
    using assms by (rule valid_utf8_scan_load)
  then show ?thesis
    by (simp add: main_stdout_def main_Ok valid_utf8_println_debug
        valid_utf8_println_debug_chars)
qed

theorem strings_valid_witness:
  "\<exists>reflect_types out.
     main example_project example_read example_parse (Ok example_metadata) = Ok reflect_types \<and>
     list_all valid_utf8 reflect_types \<and>
     main_stdout example_project example_read example_parse (Ok example_metadata) = Ok out \<and>
     valid_utf8 out \<and>
     valid_utf8 (println_debug_chars
       \<lparr>grapheme_extend = (\<lambda>c. False), printable = (\<lambda>c. True)\<rparr> reflect_types)"
proof -
  have "valid_metadata example_metadata"
    by (simp add: valid_metadata_def example_metadata_def valid_utf8_ascii is_ascii_def)
  moreover have "valid_file f" if "example_parse content = Ok f" for content f
    using that
    by (auto simp: example_parse_def valid_file_def nested_file_def valid_utf8_ascii is_ascii_def)
  ultimately show ?thesis
    by (rule strings_valid)
qed

text \<open>
  The two formats print the same line when the characters of the reported
  names are plain for the tables.
\<close>

lemma main_stdout_chars_plain:
  assumes "main fs read parse exec = Ok reflect_types"
    and "list_all valid_utf8 reflect_types"
    and "list_all (\<lambda>s. list_all (plain_scalar tables) (chars s)) reflect_types"
  shows "main_stdout_chars tables fs read parse exec = main_stdout fs read parse exec"
  using assms
  by (simp add: main_stdout_chars_def main_stdout_def println_debug_chars_def println_debug_def
      vec_debug_chars_plain)

end
