(* ===== verification/Spec2Isabelle.thy ===== *)
theory Spec2Isabelle
  imports Machine Validity
begin

text \<open>
  \<^bold>\<open>A verification development for bevy-reflect-check.\<close>

  The program (\<^verbatim>\<open>src/main.rs\<close>, one file) scans the Rust sources of a
  project and of its \<^verbatim>\<open>bevy_\<close> dependencies for structs and enums that
  derive \<^verbatim>\<open>Reflect\<close> and \<^verbatim>\<open>Component\<close> but carry no
  \<^verbatim>\<open>#[reflect(Component)]\<close>, and prints their qualified names.  Its parts,
  in the order of the data flow of \<^verbatim>\<open>main\<close>:

  \<^item> source discovery (\<^verbatim>\<open>collect_source_files\<close>, \<^verbatim>\<open>should_include_dir\<close>)
    and the unit filter (\<^verbatim>\<open>collect_dependency_files\<close>) fill a vector of
    path strings;
  \<^item> the syntax loader (the first loop of \<^verbatim>\<open>main\<close> and
    \<^verbatim>\<open>build_module_tree\<close>) reads and parses each path and enters the
    syntax tree into a hash map keyed by the path;
  \<^item> for every entry of the map, the module path resolver
    (\<^verbatim>\<open>resolve_module_path\<close>, \<^verbatim>\<open>crate_root_for_file\<close>,
    \<^verbatim>\<open>crate_root_path\<close>, \<^verbatim>\<open>relative_path_to_module_path\<close>) turns the
    path into a module path, and
  \<^item> the visibility-propagating walker (\<^verbatim>\<open>collect_reflect_types\<close>) runs
    over the syntax tree with the detection predicate
    (\<^verbatim>\<open>derives_reflect_and_component_but_no_reflect_component\<close>), the
    test-guard check \<^verbatim>\<open>has_cfg_test\<close> and the visibility check
    \<^verbatim>\<open>is_public\<close>, and appends to the vector of findings;
  \<^item> \<^verbatim>\<open>println!\<close> writes the vector in its \<^verbatim>\<open>Debug\<close> format.

  \<^bold>\<open>The theories\<close>, each named after what it models, in the order of
  their dependencies.

  \<^descr>[\<open>Prelude\<close>] the collections of facts (\<open>rust_eval\<close>, \<open>walker_simps\<close>),
    the result type with \<^verbatim>\<open>Result::ok\<close>, and the lemmas on prefixes,
    suffixes, contiguous sublists and accumulating folds that several
    components use.
  \<^descr>[\<open>Rust_Str\<close>] the string operations the program calls:
    \<open>starts_with\<close>, \<open>contains\<close>, \<open>trim_end_matches\<close> (a \<^theory_text>\<open>function\<close>
    with its termination proof), \<open>join\<close>, \<open>format_qualified\<close> for
    \<^verbatim>\<open>format!("{}::{}", a, b)\<close>, and \<open>split_on\<close>.  Trimming is idempotent
    and removes whole copies of the pattern; joining and splitting are
    inverse to each other.
  \<^descr>[\<open>Utf8\<close>] strings as lists of bytes: the chunks into which the
    standard library divides a sequence of bytes (\<open>next_chunk\<close>,
    \<open>utf8_chunks\<close>), validity (\<open>valid_utf8\<close>), \<^verbatim>\<open>OsStr::to_str\<close>
    (\<open>to_str\<close>) and \<^verbatim>\<open>to_string_lossy\<close>.  The lossy conversion returns
    valid UTF-8 and is the identity exactly on valid strings; ASCII
    strings are valid; a valid string cut at an ASCII byte falls into
    valid strings; a valid string is empty or an encoded character
    followed by a valid string, which is the induction principle
    \<open>valid_utf8_induct\<close>.
  \<^descr>[\<open>Unicode\<close>] the characters of a string: the decoder behind
    \<^verbatim>\<open>str::chars\<close> (\<open>next_code_point\<close>, \<open>utf8_acc_cont_byte\<close>, \<open>chars\<close>)
    and the encoder \<^verbatim>\<open>char::encode_utf8\<close> (\<open>encode_utf8\<close>, \<open>len_utf8\<close>),
    with the masks and shifts of the source as arithmetic on natural
    numbers.  Decoder and encoder are inverse to each other between the
    encoded characters and the scalar values (\<open>is_scalar_value\<close>);
    \<open>valid_utf8_iff_chars\<close> says that the validation by chunks accepts
    exactly the encodings of sequences of scalar values; a string has one
    to four bytes for each character, and the decoder stays below
    \<open>2\<^sup>2\<^sup>1\<close>, so its arithmetic is that of the 32 bits of the source.
  \<^descr>[\<open>Rust_Path\<close>] \<^verbatim>\<open>std::path::Path\<close> as a list of components:
    parsing (\<open>path_new\<close>) with the standard library's normalisation,
    \<open>path_starts_with\<close>, \<open>strip_prefix\<close> (a result), \<open>parent\<close>,
    \<open>file_name\<close> and \<open>extension\<close> (options), \<open>path_iter\<close>, and on strings
    \<open>path_join\<close> and \<open>path_to_string\<close>.  The invariant \<open>wf_path\<close> holds
    of every parsed path and is kept by the operations; printing and
    parsing a well-formed path is the identity; joining a clean name adds
    one component; the extension \<^verbatim>\<open>rs\<close> is characterised; the
    components of a valid string are valid.
  \<^descr>[\<open>Module_Path\<close>] the resolver over the packages of the metadata
    (records \<open>package\<close>, \<open>metadata\<close>): \<open>crate_root_for_file\<close> with its
    loop and both exits, \<open>crate_root_path\<close>,
    \<open>relative_path_to_module_path\<close>, \<open>resolve_module_path\<close>.  The lemmas
    give the module path of \<^verbatim>\<open>foo/bar.rs\<close> and of \<^verbatim>\<open>foo/mod.rs\<close>, the
    package a file is attributed to, and the result of the resolver for a
    path below \<^verbatim>\<open>src\<close>, for a path that starts with \<^verbatim>\<open>./\<close>, for a
    file of a package, and for packages that share a name; the conversion
    \<^verbatim>\<open>to_str\<close> inside \<open>relative_path_to_module_path\<close> drops no
    component of a path that was parsed from a Rust string.
  \<^descr>[\<open>Discovery\<close>] the file system as a function from directory strings
    to trees (\<open>fs_node\<close>), \<^verbatim>\<open>WalkDir\<close> under \<^verbatim>\<open>filter_entry\<close> as
    \<open>walk_entry\<close> and \<open>walk_dir\<close>, \<open>should_include_dir\<close>,
    \<open>collect_source_files\<close> and \<open>collect_dependency_files\<close>.  The walk is
    proved equal to its specification by names (\<open>lookup_node\<close>, \<open>kept\<close>,
    \<open>below\<close>), and discovery is characterised as the set of entries with
    extension \<^verbatim>\<open>rs\<close> that are not below \<^verbatim>\<open>examples\<close> or
    \<^verbatim>\<open>tests\<close>.  The names of the entries are sequences of bytes; the
    collected paths are their lossy conversions, which are valid UTF-8
    and equal to the paths of the entries where the names are valid.
  \<^descr>[\<open>Tokens\<close>] the token trees of attributes, their display
    (\<open>to_string\<close>) and \<^verbatim>\<open>syn\<close>'s \<open>parse_nested_meta\<close> with the closure
    as a state transformer; the loop terminates, and the state it leaves is
    the closure folded over the paths reached before the first syntax
    error.
  \<^descr>[\<open>Syntax\<close>] visibility, meta items, attributes, items (a datatype
    nested through lists and options) and files, and the attributes the
    examples are written with.
  \<^descr>[\<open>Detection\<close>] \<open>has_cfg_test\<close>, \<open>is_public\<close> and the detection
    predicate with its three flags as the record \<open>detect_flags\<close>; its
    truth table over what the attributes declare, its independence of the
    order of the attributes, and the attributes it misreads.
  \<^descr>[\<open>Walker\<close>] \<open>collect_reflect_types\<close> and its loop \<open>collect_items\<close>,
    mutually recursive as in the source, with the vector of findings as
    accumulator; the pure specification \<open>findings\<close> and the inductive
    relation \<open>reported\<close>; the traversal appends exactly the specified
    findings, skips test-guarded modules and, under the public-only policy,
    everything below a module that is not public.
  \<^descr>[\<open>Output\<close>] the \<^verbatim>\<open>Debug\<close> format of the printed vector
    (\<open>escape_debug\<close>, \<open>str_debug\<close>, \<open>vec_debug\<close>, \<open>println_debug\<close>) and a
    parser for it (\<open>parse_debug_vec\<close>, total by a termination proof); the
    round trip, the injectivity of the format and the bounds on the length
    of a printed string.
  \<^descr>[\<open>Debug_Chars\<close>] the \<^verbatim>\<open>Debug\<close> format on characters, as the
    standard library defines it (\<open>escape_debug_ext\<close>, \<open>str_debug_chars\<close>,
    \<open>vec_debug_chars\<close>, \<open>println_debug_chars\<close>), over the two tables of the
    Unicode database that it consults (record \<open>unicode_data\<close>).
    \<open>str_debug_chars_iff\<close> says where the format on bytes of \<open>Output\<close>
    is this format: on exactly the strings whose characters are plain for
    the tables (\<open>plain_scalar\<close>), which covers ASCII without \<^verbatim>\<open>0x7F\<close> under
    any tables.  Both formats write valid UTF-8 for valid strings.
  \<^descr>[\<open>Debug_Read\<close>] a reader for the format on characters
    (\<open>parse_debug_vec_chars\<close>, total by termination proofs), in which an
    escape \<^verbatim>\<open>\u{...}\<close> stands for the bytes of a character; it reads
    every printed vector of strings back, whatever the tables are.
  \<^descr>[\<open>Pipeline\<close>] \<open>main\<close> with the panic of \<^verbatim>\<open>expect\<close> as its error
    and \<open>main_stdout\<close> for what it prints, the loader (\<open>load_step\<close>,
    \<open>load_files\<close>, \<open>build_module_tree\<close>) and the scan (\<open>scan_step\<close>,
    \<open>scan_tree\<close>), and \<^verbatim>\<open>fs::read_to_string\<close> over the bytes of the
    files (\<open>read_to_string\<close>: a file is read when the operating system
    returns bytes that are valid UTF-8); the module tree has distinct keys and maps the
    loadable paths to their syntax trees, and the report is the
    concatenation of the findings of the resolved files, up to the order
    of iteration.  \<open>report_iff\<close> says which names the two loops report
    for a list of files, by the derivations of the walker's
    specification; \<open>scan_load_order\<close> says that neither the order of the
    discovery nor the repetition of a path changes the findings or
    their multiplicities.
  \<^descr>[\<open>Machine\<close>] the two loops of \<open>main\<close> as a step relation
    (\<^theory_text>\<open>inductive\<close> \<open>step\<close> on the record \<open>run_state\<close>, with the list of
    \<open>successors\<close> for evaluation), one step per iteration, the second loop
    free to take the entries of the hash map in any order.  Every step
    decreases the measure \<open>work\<close>, so every run ends after at most
    \<open>2 * n + 2\<close> steps for \<open>n\<close> source files; no state before the end is
    stuck; the invariant \<open>run_inv\<close> holds in every reachable state and
    gives the outcome of every complete run, which is the report of
    \<open>main\<close> up to the order of the findings; \<open>main\<close> itself is the run
    that takes everything in the order of the lists.  The type \<open>phase\<close> is
    a linear order (the order in which \<open>main\<close> passes through the
    phases); no step leads back, and the module tree does not change once
    the second loop has begun.  Two complete runs agree on their findings
    up to the order (\<open>reruns_agree\<close>), also when the discovery has listed
    the files in another order.
  \<^descr>[\<open>Validity\<close>] the strings of the program are valid UTF-8: the
    predicates \<open>valid_item\<close>, \<open>valid_file\<close> and \<open>valid_metadata\<close> on the
    inputs, \<open>main_stdout_chars\<close> for the line printed in the format on
    characters, and \<open>strings_valid\<close>: every module path, every reported
    name and the printed line are valid whatever the names in the file
    system are, so a list of bytes stands for a \<^verbatim>\<open>String\<close> wherever the
    program has one.
  \<^descr>[\<open>Spec2Isabelle\<close>] (this theory) the properties that span the
    components: what is reported for a file with one type, that the
    program reports the dependencies' files only, which names the
    program reports from end to end (\<open>main_report_iff\<close>: a package with
    the prefix, a discovered file that loads and resolves, and a
    derivation of the name from its items), that a name can be reported
    twice, and that the printed line determines the report, in the
    format on bytes for every report and in the format on characters for
    every report of strings under any tables
    (\<open>stdout_chars_determines_report\<close>).

  \<^bold>\<open>Conventions.\<close>  A mutable variable of the source is an argument
  and a result of the model; \<^verbatim>\<open>Option\<close> is \<^typ>\<open>'a option\<close> and
  \<^verbatim>\<open>Result\<close> is a sum with the error on the left; a \<^verbatim>\<open>for\<close> loop
  is a recursion over, or a fold of, the list it runs through.  Every
  definition computes: the facts collected in \<open>rust_eval\<close> and
  \<open>walker_simps\<close> evaluate the model on concrete file systems, paths and
  syntax trees by simplification.  Library functions (\<^verbatim>\<open>std\<close>,
  \<^verbatim>\<open>syn\<close>, \<^verbatim>\<open>proc_macro2\<close>, \<^verbatim>\<open>walkdir\<close>) are modelled from their
  documented behaviour at the place the program calls them.  No fuel is
  used: every recursion is structural or has a termination proof by a
  measure (the length of the remaining input, the size of the syntax
  tree), and a file system is a finite tree.  The step relation of
  \<open>Machine\<close> needs no fuel either: the bound on its runs is a theorem.

  \<^bold>\<open>Assumptions that properties state.\<close>  Paths are Unix paths.  A
  \<^typ>\<open>string\<close> is a list of bytes; the names in the file system are
  arbitrary, and a Rust string (\<^verbatim>\<open>str\<close>, \<^verbatim>\<open>String\<close>) is a list that is
  valid UTF-8, which a property says where it needs it (\<open>valid_utf8\<close>,
  or \<open>plain_segment\<close> for the segments of a path).  Where a property
  needs it, the manifest paths of the
  metadata are absolute (\<open>absolute_packages\<close>), as \<^verbatim>\<open>cargo metadata\<close>
  reports them, and a directory tree is well-formed (\<open>wf_node\<close>: clean and
  pairwise different names in a directory).  \<open>strings_valid\<close> and
  \<open>stdout_chars_determines_report\<close> assume what the types of
  \<^verbatim>\<open>cargo_metadata\<close> and \<^verbatim>\<open>syn\<close> promise: the names of the packages
  and the identifiers of the parsed files are strings (\<open>valid_metadata\<close>,
  \<open>valid_file\<close>).  The hash map is an
  association list; the order of its iteration is the order of the list,
  and \<open>scan_tree_order\<close> covers every other order.

  \<^bold>\<open>Not modelled.\<close>  The parser \<^verbatim>\<open>syn::parse_file\<close>, a library that
  implements the grammar of Rust (parameter \<open>parse\<close> of the loader: a
  function from the text to a syntax tree or an error), the bytes of the
  files (parameter \<open>disk\<close> of \<open>read_to_string\<close>, or the reader \<open>read\<close>
  as a whole where a property holds for every reader),
  the process behind \<^verbatim>\<open>cargo metadata\<close> (\<open>main\<close> takes its result),
  symbolic links and unreadable directories (leaves of the tree), and
  the tables of the Unicode database that \<^verbatim>\<open>Debug\<close> consults for the
  characters from \<^verbatim>\<open>0x7F\<close> on (generated data of the standard library;
  parameters of \<open>Debug_Chars\<close>).  \<open>main_stdout\<close> writes every byte
  beyond ASCII as it is, which is the output of the program for the
  reports whose characters are plain; \<open>main_stdout_chars\<close> is the output
  for every report, given the tables.
\<close>

section \<open>From a file to its findings\<close>

text \<open>
  The properties below span the resolver, the detection predicate, the
  walker and the scan: what the program reports for a file that declares
  one type.
\<close>

lemma scan_single_type:
  "scan_tree md [(path, nested_file [ItemStruct ats vis ident])] =
     (case resolve_module_path path md of
        None \<Rightarrow> []
      | Some mp \<Rightarrow>
          if vis = Public \<and> derives_reflect_and_component_but_no_reflect_component ats
          then [format_qualified mp ident] else [])"
  by (auto simp: scan_tree_concat entry_findings_def findings_def reportable_def
      split: option.splits)

text \<open>
  C1.  For one file whose path resolves to a module path and which
  declares one struct, the report is the qualified name of the struct if
  the struct is public and the detection predicate holds of its
  attributes, and is empty otherwise.
\<close>

theorem marked_type_reported:
  assumes "resolve_module_path path md = Some mp"
  shows "scan_tree md [(path, nested_file [ItemStruct ats vis ident])] =
         (if vis = Public \<and> derives_reflect_and_component_but_no_reflect_component ats
          then [format_qualified mp ident] else [])"
  using assms by (simp add: scan_single_type)

theorem marked_type_reported_witness:
  "scan_tree
     \<lparr>packages = [\<lparr>name = ''bevy_ecs'', manifest_path = ''/r/bevy_ecs/Cargo.toml''\<rparr>]\<rparr>
     [(''/r/bevy_ecs/lib.rs'',
       nested_file [ItemStruct [derive_attr [''Reflect'', ''Component'']] Public ''Marker''])]
   = [''bevy_ecs::lib::Marker'']"
proof -
  have "resolve_module_path ''/r/bevy_ecs/lib.rs''
      \<lparr>packages = [\<lparr>name = ''bevy_ecs'', manifest_path = ''/r/bevy_ecs/Cargo.toml''\<rparr>]\<rparr>
    = Some ''bevy_ecs::lib''"
    by (simp add: rust_eval)
  from marked_type_reported [OF this] show ?thesis
    by (simp add: detection_eval) (simp add: rust_eval)
qed

text \<open>
  C2.  A \<^verbatim>\<open>#[reflect(Component)]\<close> anywhere among the attributes of the
  struct empties the report, whatever the other attributes are.
\<close>

theorem registered_type_silent:
  "scan_tree md
     [(path, nested_file [ItemStruct (ats @ reflect_attr [''Component''] # bts) vis ident])] = []"
  by (simp add: scan_single_type detection_iff declares_set [of _ _ "_ @ _"]
      split: option.splits)

text \<open>
  The files of the project itself are never reported.  The discovery
  walks \<^verbatim>\<open>./src\<close>, so every path it yields for the project starts with
  \<^verbatim>\<open>./\<close>; such a path lies below no package, because the manifest paths
  are absolute, and does not start with the component \<^verbatim>\<open>src\<close>, because
  its first component is the current directory.
\<close>

theorem local_files_unreported:
  assumes "absolute_packages md" and "\<forall>entry \<in> set tree. starts_with (fst entry) ''./''"
  shows "scan_tree md tree = []"
proof -
  have "entry_findings md entry = []" if "entry \<in> set tree" for entry
  proof -
    from that assms(2) obtain body where "path_new (fst entry) = CurDir # body"
      using path_new_dot_prefixed by blast
    with assms(1) have "resolve_module_path (fst entry) md = None"
      by (rule resolve_cur_dir)
    then show ?thesis
      by (simp add: entry_findings_def)
  qed
  then show ?thesis
    by (simp add: scan_tree_concat)
qed

theorem local_files_unreported_witness:
  "scan_tree
     \<lparr>packages = [\<lparr>name = ''app'', manifest_path = ''/home/u/app/Cargo.toml''\<rparr>]\<rparr>
     [(''./src/main.rs'',
       nested_file [ItemStruct [derive_attr [''Reflect'', ''Component'']] Public ''Marker''])]
   = []"
  by (rule local_files_unreported) (simp_all add: absolute_packages_def rust_eval)

section \<open>The program and the files of the project\<close>

lemma local_files_dot_prefixed:
  assumes "x \<in> set (collect_source_files fs ''./src'' [])"
  shows "starts_with x ''./''" and "\<not> has_root x"
  using collect_source_files_prefix [OF assms, of "''./''"]
  by (auto simp: starts_with_def has_root_def prefix_def rust_eval)

lemma local_tree_unresolved:
  assumes "absolute_packages md"
  shows "scan_tree md (load_files read parse (collect_source_files fs ''./src'' [])) = []"
proof (rule scan_tree_unresolved)
  fix path
  assume "path \<in> fst ` set (load_files read parse (collect_source_files fs ''./src'' []))"
  with keys_load_files have "path \<in> set (collect_source_files fs ''./src'' [])"
    by blast
  then obtain body where "path_new path = CurDir # body"
    using local_files_dot_prefixed(1) path_new_dot_prefixed by blast
  with assms show "resolve_module_path path md = None"
    by (rule resolve_cur_dir)
qed

lemma scan_local_and_dependencies:
  assumes "absolute_packages md"
  shows "scan_tree md (load_files read parse
           (collect_source_files fs ''./src'' [] @ collect_dependency_files fs md [])) =
         scan_tree md (load_files read parse (collect_dependency_files fs md []))"
proof -
  let ?local = "collect_source_files fs ''./src'' []"
  let ?deps = "collect_dependency_files fs md []"
  from assms have "set ?deps \<inter> set ?local = {}"
    by (auto dest: collect_dependency_files_rooted local_files_dot_prefixed(2))
  then have "load_files read parse (?local @ ?deps) =
      load_files read parse ?local @ load_files read parse ?deps"
    by (rule load_files_append)
  with assms show ?thesis
    by (simp add: scan_tree_append local_tree_unresolved)
qed

text \<open>
  C5.  With absolute manifest paths the report of the program is the
  report for the files of the \<^verbatim>\<open>bevy_\<close> dependencies alone: the source
  files of the project itself are discovered, read and parsed, and then
  contribute nothing, because their paths start with \<^verbatim>\<open>./\<close>.
\<close>

theorem main_reports_dependencies_only:
  assumes "absolute_packages md"
  shows "main fs read parse (Ok md) =
         Ok (scan_tree md (load_files read parse (collect_dependency_files fs md [])))"
  using assms by (simp add: main_Ok scan_local_and_dependencies)

lemma marker_findings:
  "findings True True mp
     (items (nested_file [ItemStruct [derive_attr [''Reflect'', ''Component'']] Public ''Marker'']))
   = [mp @ ''::Marker'']"
  by (simp add: findings_def reportable_def detection_eval format_qualified_def)

text \<open>
  The witness is the example project: the marked struct of
  \<^verbatim>\<open>./src/main.rs\<close> is not reported, the one of the dependency is,
  under a module path that contains \<^verbatim>\<open>src\<close>, and the directory
  \<^verbatim>\<open>examples\<close> of the dependency is not entered.
\<close>

theorem main_reports_dependencies_only_witness:
  "main example_project example_read example_parse (Ok example_metadata) =
     Ok [''bevy_ui::src::lib::Marker'']"
proof -
  have "absolute_packages example_metadata"
    by (simp add: example_metadata_def absolute_packages_def rust_eval)
  from main_reports_dependencies_only [OF this, of example_project example_read example_parse]
  have "main example_project example_read example_parse (Ok example_metadata) =
      Ok (scan_tree example_metadata (load_files example_read example_parse
            [''/r/bevy_ui/src/lib.rs'']))"
    by (simp add: collect_dependency_files_concat package_files_def example_metadata_def
        example_project_def rust_eval)
  also have "scan_tree example_metadata (load_files example_read example_parse
      [''/r/bevy_ui/src/lib.rs'']) = [''bevy_ui::src::lib::Marker'']"
    using marker_findings [of "''bevy_ui::src::lib''"]
    by (simp add: scan_tree_concat entry_findings_def load_files_def load_step_loaded loaded_def
        example_read_def example_parse_def example_metadata_def build_module_tree_def rust_eval)
  finally show ?thesis .
qed

section \<open>What the program reports\<close>

text \<open>
  C3.  The program from end to end, with absolute manifest paths: a name
  is in the report exactly when the metadata lists a package whose name
  starts with \<^verbatim>\<open>bevy_\<close>, the discovery finds a file below the directory
  of that package, the file can be read and parsed, its path resolves to
  a module path, and the name has a derivation from the items of the file:
  a chain of public modules without test guard that ends in a public
  struct or enum for which the detection predicate holds.
\<close>

theorem main_report_iff:
  assumes "absolute_packages md" and "main fs read parse (Ok md) = Ok reflect_types"
  shows "x \<in> set reflect_types \<longleftrightarrow>
         (\<exists>pkg path f mp.
            pkg \<in> set (packages md) \<and> starts_with (name pkg) ''bevy_'' \<and>
            path \<in> set (package_files fs pkg) \<and> loaded read parse path = Some f \<and>
            resolve_module_path path md = Some mp \<and>
            reported True True mp (items f) x)"
proof -
  let ?deps = "collect_dependency_files fs md []"
  have deps: "path \<in> set ?deps \<longleftrightarrow>
      (\<exists>pkg \<in> set (packages md).
         starts_with (name pkg) ''bevy_'' \<and> path \<in> set (package_files fs pkg))" for path
    by (auto simp: collect_dependency_files_concat)
  from assms have report: "reflect_types = scan_tree md (load_files read parse ?deps)"
    by (simp add: main_Ok scan_local_and_dependencies)
  show ?thesis
    unfolding report scan_load_reported deps by blast
qed

text \<open>
  The witness is the example project: the one name of its report has
  such a package, file and derivation.
\<close>

theorem main_report_iff_witness:
  "\<exists>pkg path f mp.
     pkg \<in> set (packages example_metadata) \<and> starts_with (name pkg) ''bevy_'' \<and>
     path \<in> set (package_files example_project pkg) \<and>
     loaded example_read example_parse path = Some f \<and>
     resolve_module_path path example_metadata = Some mp \<and>
     reported True True mp (items f) ''bevy_ui::src::lib::Marker''"
proof -
  have "absolute_packages example_metadata"
    by (simp add: example_metadata_def absolute_packages_def rust_eval)
  from main_report_iff [OF this example_main, of "''bevy_ui::src::lib::Marker''"]
  show ?thesis
    by simp
qed

text \<open>
  The report may name a type twice.  The module tree holds every path
  string once, but two files may resolve to one module path, as
  \<^verbatim>\<open>foo.rs\<close> and \<^verbatim>\<open>foo/mod.rs\<close> do, and the findings are not
  compared with each other.
\<close>

theorem duplicate_findings:
  "scan_tree \<lparr>packages = [\<lparr>name = ''bevy_ui'', manifest_path = ''/r/bevy_ui/Cargo.toml''\<rparr>]\<rparr>
     [(''/r/bevy_ui/foo.rs'', marker_file), (''/r/bevy_ui/foo/mod.rs'', marker_file)] =
   [''bevy_ui::foo::Marker'', ''bevy_ui::foo::Marker'']"
proof -
  let ?md = "\<lparr>packages = [\<lparr>name = ''bevy_ui'', manifest_path = ''/r/bevy_ui/Cargo.toml''\<rparr>]\<rparr>"
  have "resolve_module_path ''/r/bevy_ui/foo.rs'' ?md = Some ''bevy_ui::foo''"
    and "resolve_module_path ''/r/bevy_ui/foo/mod.rs'' ?md = Some ''bevy_ui::foo''"
    by (simp_all add: rust_eval)
  then show ?thesis
    using marker_findings [of "''bevy_ui::foo''"]
    by (simp add: scan_tree_concat entry_findings_def marker_file_def)
qed

section \<open>The printed line\<close>

text \<open>
  The line that the program prints determines its report: it is the
  report in the \<^verbatim>\<open>Debug\<close> format followed by a line feed, and reading
  it back gives the report.
\<close>

theorem stdout_determines_report:
  assumes "main_stdout fs read parse exec = Ok out"
  shows "\<exists>reflect_types.
           main fs read parse exec = Ok reflect_types \<and>
           out = vec_debug reflect_types @ [CHR 0x0A] \<and>
           parse_debug_vec (butlast out) = Some reflect_types"
proof (cases "main fs read parse exec")
  case (Inl p)
  with assms show ?thesis
    by (simp add: main_stdout_def)
next
  case (Inr reflect_types)
  with assms have "out = vec_debug reflect_types @ [CHR 0x0A]"
    by (auto simp: main_stdout_def println_debug_def)
  with Inr show ?thesis
    by (simp add: parse_debug_vec_roundtrip)
qed

text \<open>
  The witness is the line that the example project prints,
  \<^verbatim>\<open>["bevy_ui::src::lib::Marker"]\<close>.
\<close>

theorem stdout_determines_report_witness:
  "\<exists>reflect_types.
     main example_project example_read example_parse (Ok example_metadata) = Ok reflect_types \<and>
     CHR ''['' # double_quote # ''bevy_ui::src::lib::Marker'' @ [double_quote, CHR '']'', CHR 0x0A] =
       vec_debug reflect_types @ [CHR 0x0A] \<and>
     parse_debug_vec
       (butlast (CHR ''['' # double_quote # ''bevy_ui::src::lib::Marker'' @
                 [double_quote, CHR '']'', CHR 0x0A])) = Some reflect_types"
proof (rule stdout_determines_report)
  have "str_debug ''bevy_ui::src::lib::Marker'' =
      double_quote # ''bevy_ui::src::lib::Marker'' @ [double_quote]"
    by (rule str_debug_plain)
      (simp add: plain_char_def is_printable_def backslash_def double_quote_def)
  then have "vec_debug [''bevy_ui::src::lib::Marker''] =
      CHR ''['' # double_quote # ''bevy_ui::src::lib::Marker'' @ [double_quote, CHR '']'']"
    by (simp add: vec_debug_def)
  then show "main_stdout example_project example_read example_parse (Ok example_metadata) =
      Ok (CHR ''['' # double_quote # ''bevy_ui::src::lib::Marker'' @
          [double_quote, CHR '']'', CHR 0x0A])"
    by (simp add: main_stdout_def example_main println_debug_def)
qed

text \<open>
  C20.  The line that the program prints determines its report, in the
  \<^verbatim>\<open>Debug\<close> format of the standard library and whatever its Unicode
  tables are: if the names of the packages and the identifiers of the
  parsed files are strings, the line is the report in the format on
  characters followed by a line feed, and reading it back gives the
  report.
\<close>

theorem stdout_chars_determines_report:
  assumes "valid_metadata md"
    and "\<And>content f. parse content = Ok f \<Longrightarrow> valid_file f"
    and "main_stdout_chars tables fs read parse (Ok md) = Ok out"
  shows "\<exists>reflect_types.
           main fs read parse (Ok md) = Ok reflect_types \<and>
           out = vec_debug_chars tables reflect_types @ [CHR 0x0A] \<and>
           parse_debug_vec_chars (butlast out) = Some reflect_types"
proof -
  have "list_all valid_utf8 (scan_tree md (load_files read parse files))" for files
    using assms(1,2) by (rule valid_utf8_scan_load)
  moreover from assms(3) have "out =
      vec_debug_chars tables
        (scan_tree md (load_files read parse
           (collect_source_files fs ''./src'' [] @ collect_dependency_files fs md []))) @
      [CHR 0x0A]"
    by (simp add: main_stdout_chars_def main_Ok println_debug_chars_def)
  ultimately show ?thesis
    by (simp add: main_Ok parse_debug_vec_chars_roundtrip)
qed

theorem stdout_chars_determines_report_witness:
  "\<exists>reflect_types.
     main example_project example_read example_parse (Ok example_metadata) = Ok reflect_types \<and>
     CHR ''['' # double_quote # ''bevy_ui::src::lib::Marker'' @ [double_quote, CHR '']'', CHR 0x0A] =
       vec_debug_chars \<lparr>grapheme_extend = (\<lambda>c. False), printable = (\<lambda>c. True)\<rparr> reflect_types @
       [CHR 0x0A] \<and>
     parse_debug_vec_chars
       (butlast (CHR ''['' # double_quote # ''bevy_ui::src::lib::Marker'' @
                 [double_quote, CHR '']'', CHR 0x0A])) = Some reflect_types"
proof (rule stdout_chars_determines_report)
  show "valid_metadata example_metadata"
    by (simp add: valid_metadata_def example_metadata_def valid_utf8_ascii is_ascii_def)
  show "valid_file f" if "example_parse content = Ok f" for content f
    using that
    by (auto simp: example_parse_def valid_file_def nested_file_def valid_utf8_ascii is_ascii_def)
  let ?tables = "\<lparr>grapheme_extend = (\<lambda>c. False), printable = (\<lambda>c. True)\<rparr>"
  have "str_debug_chars ?tables ''bevy_ui::src::lib::Marker'' =
      str_debug ''bevy_ui::src::lib::Marker''"
    by (rule str_debug_chars_ascii) simp
  also have "\<dots> = double_quote # ''bevy_ui::src::lib::Marker'' @ [double_quote]"
    by (rule str_debug_plain)
      (simp add: plain_char_def is_printable_def backslash_def double_quote_def)
  finally have "vec_debug_chars ?tables [''bevy_ui::src::lib::Marker''] =
      CHR ''['' # double_quote # ''bevy_ui::src::lib::Marker'' @ [double_quote, CHR '']'']"
    by (simp add: vec_debug_chars_def)
  then show "main_stdout_chars ?tables example_project example_read example_parse
      (Ok example_metadata) =
      Ok (CHR ''['' # double_quote # ''bevy_ui::src::lib::Marker'' @
          [double_quote, CHR '']'', CHR 0x0A])"
    by (simp add: main_stdout_chars_def example_main println_debug_chars_def)
qed

end
